(* ===== verification/Prelude.thy ===== *)
theory Prelude
  imports "HOL-Library.Word" "HOL-Library.Monad_Syntax"
begin

text \<open>
  The prelude of the development: the machine integers of the code, the treatment of
  undefined behaviour and of indeterminate values, the model of \<^verbatim>\<open>std::vector\<close>, and the
  rules that the component theories share.

  Conventions, used in every theory:
  \<^item> a read outside a
    vector, an iterator range that is not valid, a null pointer or one to an object of another
    type, an empty \<^verbatim>\<open>std::function\<close>, a signed increment past its maximum and a failed
    assertion make the
    result \<^term>\<open>None\<close>, a \<^emph>\<open>fault\<close>; every later step of the same run is cut off;
  \<^item> a value that the code reads without having set it (an uninitialised local, the result
    of a function whose body has no \<^verbatim>\<open>return\<close>) is \<^emph>\<open>any\<close> value: it is taken
    from the supply \<^verbatim>\<open>env\<close> below, over which the theorems are universally quantified;
  \<^item> a function that runs off its end has the return value \<^verbatim>\<open>NoReturn\<close>; its effects
    on the state stand.

  The last two are undefined behaviour in C++ as well. They are kept apart from the faults: the model
  goes on after them with every value, so that the theorems about faults and about results are
  statements about every way in which the code may go on, and none of them says that the code is
  free of such reads and ends.
\<close>

declare Let_def [simp]

section \<open>Machine integers\<close>

type_synonym u64 = "64 word"
type_synonym bytes = "8 word list"

text \<open>
  \<^verbatim>\<open>uint64_t\<close> is a 64-bit word. A protobuf \<^verbatim>\<open>int64\<close> that the code converts to
  \<^verbatim>\<open>uint64_t\<close> is the same word. A C++ \<^verbatim>\<open>int\<close> and an \<^verbatim>\<open>int64_t\<close> that is used with
  signed arithmetic are \<^typ>\<open>int\<close>, and an increment past the largest value is undefined.
\<close>

definition int_max :: int where
  "int_max = 2147483647"

definition int64_max :: int where
  "int64_max = 9223372036854775807"

definition int_add :: "int \<Rightarrow> int \<Rightarrow> int option" where
  "int_add x n = (if x + n \<le> int_max then Some (x + n) else None)"

definition int_inc :: "int \<Rightarrow> int option" where
  "int_inc x = int_add x 1"

definition int64_inc :: "int \<Rightarrow> int option" where
  "int64_inc x = (if x + 1 \<le> int64_max then Some (x + 1) else None)"

definition int64_dec :: "int \<Rightarrow> int option" where
  "int64_dec x = (if - int64_max \<le> x then Some (x - 1) else None)"

section \<open>Values the code does not determine\<close>

text \<open>
  Every run takes a supply of values the source does not determine: what an uninitialised
  variable or a missing return holds (\<open>ev_indet\<close>), and what the library's random number
  generator returns for a range (\<open>ev_rand\<close>). A supply is indexed by the path of calls
  that leads to the read, so that two reads never share a value: a caller hands its
  \<open>k\<close>-th callee the supply \<open>sub_call k g\<close>.
\<close>

record env =
  ev_indet :: "nat list \<Rightarrow> u64"
  ev_rand :: "nat list \<Rightarrow> u64 \<Rightarrow> u64"

definition sub_call :: "nat \<Rightarrow> env \<Rightarrow> env" where
  "sub_call k g = \<lparr>ev_indet = (\<lambda>p. ev_indet g (k # p)), ev_rand = (\<lambda>p. ev_rand g (k # p))\<rparr>"

definition indet_u64 :: "env \<Rightarrow> u64" where
  "indet_u64 g = ev_indet g []"

definition indet_bool :: "env \<Rightarrow> bool" where
  "indet_bool g = (ev_indet g [] \<noteq> 0)"

definition indet_int :: "env \<Rightarrow> int" where
  "indet_int g = sint (ucast (ev_indet g []) :: 32 word)"

definition rand_below :: "env \<Rightarrow> u64 \<Rightarrow> u64" where
  "rand_below g n = ev_rand g [] n"

definition env_const :: "u64 \<Rightarrow> env" where
  "env_const v = \<lparr>ev_indet = (\<lambda>_. v), ev_rand = (\<lambda>_ _. 0)\<rparr>"

text \<open>
  \<^verbatim>\<open>butil::RandGenerator(range)\<close> is not part of the repository. Its documentation says
  that it returns a value in \<open>[0, range)\<close>; that is the only thing a theorem may assume
  about it.
\<close>

definition rand_ok :: "env \<Rightarrow> bool" where
  "rand_ok g \<longleftrightarrow> (\<forall>p n. 0 < n \<longrightarrow> ev_rand g p n < n)"

lemma sub_call_env_const [simp]: "sub_call k (env_const v) = env_const v"
  by (simp add: sub_call_def env_const_def)

lemma indet_u64_env_const [simp]: "indet_u64 (env_const v) = v"
  by (simp add: indet_u64_def env_const_def)

lemma indet_bool_env_const [simp]: "indet_bool (env_const v) \<longleftrightarrow> v \<noteq> 0"
  by (simp add: indet_bool_def env_const_def)

lemma indet_int_env_const [simp]: "indet_int (env_const v) = sint (ucast v :: 32 word)"
  by (simp add: indet_int_def env_const_def)

lemma rand_ok_env_const [simp]: "rand_ok (env_const v)"
  by (simp add: rand_ok_def env_const_def word_gt_0)

lemma rand_ok_sub_call [intro]: "rand_ok g \<Longrightarrow> rand_ok (sub_call k g)"
  by (simp add: rand_ok_def sub_call_def)

lemma rand_ok_below: "rand_ok g \<Longrightarrow> 0 < n \<Longrightarrow> rand_below g n < n"
  by (simp add: rand_ok_def rand_below_def)

lemma indet_int_range: "- 2147483648 \<le> indet_int g" "indet_int g \<le> int_max"
  using sint_ge [of "ucast (ev_indet g []) :: 32 word"] sint_lt [of "ucast (ev_indet g []) :: 32 word"]
  by (simp_all add: indet_int_def int_max_def)

section \<open>Return values\<close>

datatype 'a rv = Returns 'a | NoReturn

text \<open>What a caller reads from a call.\<close>

definition read_bool :: "env \<Rightarrow> bool rv \<Rightarrow> bool" where
  "read_bool g v = (case v of Returns b \<Rightarrow> b | NoReturn \<Rightarrow> indet_bool g)"

definition read_u64 :: "env \<Rightarrow> u64 rv \<Rightarrow> u64" where
  "read_u64 g v = (case v of Returns n \<Rightarrow> n | NoReturn \<Rightarrow> indet_u64 g)"

section \<open>Weakest preconditions for faults\<close>

text \<open>
  \<open>post m P\<close>: if the run \<open>m\<close> is defined, its result satisfies \<open>P\<close>.
\<close>

definition post :: "'a option \<Rightarrow> ('a \<Rightarrow> bool) \<Rightarrow> bool" where
  "post m P \<longleftrightarrow> (case m of None \<Rightarrow> True | Some x \<Rightarrow> P x)"

named_theorems post_rules

lemma post_None [simp, post_rules]: "post None P"
  by (simp add: post_def)

lemma post_Some [simp]: "post (Some x) P \<longleftrightarrow> P x"
  by (simp add: post_def)

lemma post_bind [simp]: "post (Option.bind m f) P \<longleftrightarrow> post m (\<lambda>x. post (f x) P)"
  by (cases m) simp_all

lemma post_if [simp]: "post (if b then m else n) P \<longleftrightarrow> (if b then post m P else post n P)"
  by simp

lemma postI: "(\<And>x. m = Some x \<Longrightarrow> P x) \<Longrightarrow> post m P"
  by (cases m) simp_all

lemma postD: "post m P \<Longrightarrow> m = Some x \<Longrightarrow> P x"
  by simp

lemma post_mono: "post m P \<Longrightarrow> (\<And>x. P x \<Longrightarrow> Q x) \<Longrightarrow> post m Q"
  by (cases m) simp_all

lemma post_conj: "post m P \<Longrightarrow> post m Q \<Longrightarrow> post m (\<lambda>x. P x \<and> Q x)"
  by (cases m) simp_all

lemma post_True [simp]: "post m (\<lambda>x. True)"
  by (cases m) simp_all

text \<open>\<open>defined m\<close>: the run \<open>m\<close> meets no fault.\<close>

definition defined :: "'a option \<Rightarrow> bool" where
  "defined m \<longleftrightarrow> m \<noteq> None"

lemma defined_simps [simp]: "defined (Some x)" "\<not> defined None"
  by (simp_all add: defined_def)

lemma defined_bind [simp]: "defined (Option.bind m f) \<longleftrightarrow> defined m \<and> post m (\<lambda>x. defined (f x))"
  by (cases m) simp_all

lemma defined_if [simp]: "defined (if b then m else n) \<longleftrightarrow> (if b then defined m else defined n)"
  by simp

lemma definedE: "defined m \<Longrightarrow> (\<And>x. m = Some x \<Longrightarrow> P) \<Longrightarrow> P"
  by (cases m) simp_all

section \<open>Loops over a container\<close>

text \<open>
  \<open>for_each f g xs s\<close> is a range-based \<^verbatim>\<open>for\<close> whose body \<open>f\<close> changes the state; the
  iterations draw on disjoint parts of the supply.
\<close>

primrec for_each :: "(env \<Rightarrow> 'x \<Rightarrow> 's \<Rightarrow> 's option) \<Rightarrow> env \<Rightarrow> 'x list \<Rightarrow> 's \<Rightarrow> 's option" where
  "for_each f g [] s = Some s"
| "for_each f g (x # xs) s =
     do { s \<leftarrow> f (sub_call 0 g) x s; for_each f (sub_call 1 g) xs s }"

lemma for_each_rel:
  assumes refl: "\<And>s. R s s"
    and trans: "\<And>s t u. R s t \<Longrightarrow> R t u \<Longrightarrow> R s u"
    and body: "\<And>g x s. post (f g x s) (R s)"
  shows "post (for_each f g xs s) (R s)"
proof (induction xs arbitrary: g s)
  case Nil
  show ?case by (simp add: refl)
next
  case (Cons x xs)
  have "post (for_each f (sub_call 1 g) xs t) (R s)" if "R s t" for t
    using Cons.IH [of "sub_call 1 g" t] by (rule post_mono) (rule trans [OF that])
  with body [of "sub_call 0 g" x s] show ?case
    by (auto intro: post_mono)
qed

lemma for_each_skip: "(\<And>g x s. f g x s = Some s) \<Longrightarrow> for_each f g xs s = Some s"
  by (induction xs arbitrary: g) simp_all

text \<open>
  A machine is a step function; \<open>for_each\<close> runs it over a list of events. Two contracts on
  the step carry over to runs: an invariant that every admissible event keeps, possibly only
  for the supplies that \<open>good\<close> admits, and a preorder that every event moves along.
\<close>

locale supplied_machine =
  fixes step :: "env \<Rightarrow> 'e \<Rightarrow> 's \<Rightarrow> 's option"
    and good :: "env \<Rightarrow> bool"
    and admissible :: "'e \<Rightarrow> bool"
    and inv :: "'s \<Rightarrow> bool"
  assumes good_sub: "good g \<Longrightarrow> good (sub_call k g)"
    and step_keeps_good: "good g \<Longrightarrow> admissible e \<Longrightarrow> inv s \<Longrightarrow> post (step g e s) inv"
begin

lemma run_keeps_good: "good g \<Longrightarrow> list_all admissible es \<Longrightarrow> inv s \<Longrightarrow> post (for_each step g es s) inv"
proof (induction es arbitrary: g s)
  case Nil
  then show ?case by simp
next
  case (Cons e es)
  have "post (for_each step (sub_call 1 g) es t) inv" if "inv t" for t
    using Cons.prems that by (intro Cons.IH) (simp_all add: good_sub)
  with step_keeps_good [of "sub_call 0 g" e s] Cons.prems show ?case
    by (auto intro: post_mono good_sub)
qed

text \<open>A run that meets a fault has a part without fault, in which the invariant holds, up to the
  event whose step meets it.\<close>

lemma run_undefined_good:
  "good g \<Longrightarrow> list_all admissible es \<Longrightarrow> inv s \<Longrightarrow> for_each step g es s = None
    \<Longrightarrow> \<exists>es1 e es2 t h. es = es1 @ e # es2 \<and> for_each step g es1 s = Some t \<and> good h \<and> inv t
      \<and> admissible e \<and> step h e t = None"
proof (induction es arbitrary: g s)
  case Nil
  then show ?case by simp
next
  case (Cons e es)
  show ?case
  proof (cases "step (sub_call 0 g) e s")
    case None
    have "e # es = [] @ e # es \<and> for_each step g [] s = Some s \<and> good (sub_call 0 g) \<and> inv s \<and> admissible e"
      using Cons.prems by (simp add: good_sub)
    with None show ?thesis by blast
  next
    case (Some t)
    with Cons.prems have "inv t" "for_each step (sub_call 1 g) es t = None" "list_all admissible es"
      using postD [OF step_keeps_good Some] by (simp_all add: good_sub)
    then obtain es1 e' es2 u h where split: "es = es1 @ e' # es2" "for_each step (sub_call 1 g) es1 t = Some u"
      "good h" "inv u" "admissible e'" "step h e' u = None"
      using Cons.IH [of "sub_call 1 g" t] Cons.prems(1) good_sub by blast
    with Some have "e # es = (e # es1) @ e' # es2 \<and> for_each step g (e # es1) s = Some u" by simp
    with split(3-) show ?thesis by blast
  qed
qed

end

locale invariant_machine =
  fixes step :: "env \<Rightarrow> 'e \<Rightarrow> 's \<Rightarrow> 's option"
    and admissible :: "'e \<Rightarrow> bool"
    and inv :: "'s \<Rightarrow> bool"
  assumes step_keeps: "admissible e \<Longrightarrow> inv s \<Longrightarrow> post (step g e s) inv"

sublocale invariant_machine \<subseteq> any_supply: supplied_machine step "\<lambda>_. True" admissible inv
  by unfold_locales (simp_all add: step_keeps)

context invariant_machine
begin

lemma run_keeps: "list_all admissible es \<Longrightarrow> inv s \<Longrightarrow> post (for_each step g es s) inv"
  using any_supply.run_keeps_good by simp

lemma run_undefined:
  "list_all admissible es \<Longrightarrow> inv s \<Longrightarrow> for_each step g es s = None
    \<Longrightarrow> \<exists>es1 e es2 t h. es = es1 @ e # es2 \<and> for_each step g es1 s = Some t \<and> inv t \<and> step h e t = None"
  using any_supply.run_undefined_good by blast

end

locale ordered_machine =
  fixes step :: "env \<Rightarrow> 'e \<Rightarrow> 's \<Rightarrow> 's option"
    and le :: "'s \<Rightarrow> 's \<Rightarrow> bool"
  assumes le_refl: "le s s"
    and le_trans: "le s t \<Longrightarrow> le t u \<Longrightarrow> le s u"
    and step_le: "post (step g e s) (le s)"
begin

lemma run_le: "post (for_each step g es s) (le s)"
  using le_refl le_trans step_le by (rule for_each_rel)

end

section \<open>Channels\<close>

text \<open>
  What a sender relies on when it puts items into a queue: as long as the channel is open, every
  item arrives behind those that are there, in the form that the sender gives it. Then a
  sequence of calls arrives completely and in order.
\<close>

locale fifo_channel =
  fixes put :: "'x \<Rightarrow> 's \<Rightarrow> 's"
    and items :: "'s \<Rightarrow> 'y list"
    and form :: "'x \<Rightarrow> 'y"
    and is_open :: "'s \<Rightarrow> bool"
  assumes put_items: "is_open s \<Longrightarrow> items (put x s) = items s @ [form x]"
    and put_open: "is_open s \<Longrightarrow> is_open (put x s)"
begin

lemma all_open: "is_open s \<Longrightarrow> is_open (fold put xs s)"
  by (induction xs arbitrary: s) (simp_all add: put_open)

lemma all_arrive: "is_open s \<Longrightarrow> items (fold put xs s) = items s @ map form xs"
  by (induction xs arbitrary: s) (simp_all add: put_open put_items)

end

section \<open>Vectors\<close>

text \<open>
  A \<^verbatim>\<open>std::vector\<close> is a list. Reading outside it, and an iterator pair that is not a
  valid range of it, are undefined.
\<close>

definition vec_at :: "'a list \<Rightarrow> u64 \<Rightarrow> 'a option" where
  "vec_at xs i = (if unat i < length xs then Some (xs ! unat i) else None)"

definition vec_size :: "'a list \<Rightarrow> u64" where
  "vec_size xs = of_nat (length xs)"

text \<open>The elements of the iterator range \<open>[begin() + i, begin() + j)\<close>.\<close>

definition vec_range :: "'a list \<Rightarrow> u64 \<Rightarrow> u64 \<Rightarrow> 'a list option" where
  "vec_range xs i j =
     (if unat i \<le> unat j \<and> unat j \<le> length xs
      then Some (take (unat j - unat i) (drop (unat i) xs)) else None)"

lemma vec_at_0_Cons [simp]: "vec_at (x # xs) 0 = Some x"
  by (simp add: vec_at_def)

lemma vec_at_Nil [simp]: "vec_at [] i = None"
  by (simp add: vec_at_def)

lemma vec_at_0: "xs \<noteq> [] \<Longrightarrow> vec_at xs 0 = Some (hd xs)"
  by (simp add: vec_at_def hd_conv_nth)

lemma vec_at_None_iff: "vec_at xs i = None \<longleftrightarrow> length xs \<le> unat i"
  by (auto simp: vec_at_def)

lemma vec_range_length: "vec_range xs i j = Some ys \<Longrightarrow> length ys = unat j - unat i"
  by (auto simp: vec_range_def split: if_splits)

section \<open>Words without wrap-around\<close>

lemma unat_of_nat_u64 [simp]: "n < 18446744073709551616 \<Longrightarrow> unat (of_nat n :: u64) = n"
  by (simp add: unat_of_nat take_bit_nat_eq_self)

lemma unat_add_u64: "unat a + unat b < 18446744073709551616 \<Longrightarrow> unat (a + b :: u64) = unat a + unat b"
  by (simp add: unat_word_ariths)

lemma unat_sub_u64: "b \<le> a \<Longrightarrow> unat (a - b :: u64) = unat a - unat b"
  by (simp add: unat_sub)

lemma unat_less_2_64 [simp]: "unat (a :: u64) < 18446744073709551616"
  using unsigned_less [of a] by simp

lemma unat_le_max: "unat (x :: u64) \<le> 18446744073709551615"
  using unat_less_2_64 [of x] by linarith

lemma u64_eqI: "unat a = n \<Longrightarrow> (a :: u64) = of_nat n"
  by auto

lemma u64_less_iff: "(a :: u64) < b \<longleftrightarrow> unat a < unat b"
  by (rule word_less_nat_alt)

lemma u64_le_iff: "(a :: u64) \<le> b \<longleftrightarrow> unat a \<le> unat b"
  by (rule word_le_nat_alt)

text \<open>Comparisons of 64-bit words read as comparisons of naturals.\<close>

lemmas u64_order = u64_less_iff u64_le_iff

lemma unat_vec_size: "length xs < 18446744073709551616 \<Longrightarrow> unat (vec_size xs) = length xs"
  by (simp add: vec_size_def)

text \<open>Rules that evaluate vector operations on concrete lists and words.\<close>

lemmas vec_eval = vec_at_def vec_range_def vec_size_def nth_Cons' take_Cons' drop_Cons' u64_order

end
