(* ===== verification/Raft_Proto.thy ===== *)
theory Raft_Proto
  imports Prelude
begin

text \<open>
  The messages of \<^verbatim>\<open>src/src/proto/raft.proto\<close>. An optional field that is not set reads as
  its default (proto2 getters), so a field is modelled by the value its getter returns.
  The 64-bit fields of \<open>LogEntry\<close> are \<^verbatim>\<open>int64\<close> in the schema; the C++ code converts
  them to \<^verbatim>\<open>uint64_t\<close> wherever it reads them, so they are words here.
\<close>

section \<open>Enumerations\<close>

datatype raft_error =
    ErrNone
  | ErrCompacted
  | ErrSnapOutOfDate
  | ErrUnavailable
  | ErrSnapshotTemporarilyUnavailable
  | ErrProposalDropped
  | ErrParam

datatype conf_change_type =
    ConfChangeAddNode
  | ConfChangeRemoveNode
  | ConfChangeUpdateNode
  | ConfChangeAddLearnerNode

datatype entry_type = EntryNormal | EntryConfChange

datatype message_type =
    MsgHup
  | MsgBeat
  | MsgProp
  | MsgApp
  | MsgAppResp
  | MsgVote
  | MsgVoteResp
  | MsgSnap
  | MsgHeartbeat
  | MsgHeartbeatResp
  | MsgUnreachable
  | MsgSnapStatus
  | MsgCheckQuorum
  | MsgTransferLeader
  | MsgTimeoutNow
  | MsgReadIndex
  | MsgReadIndexResp
  | MsgPreVote
  | MsgPreVoteResp

datatype role = KFollower | KCandidate | KLeader

text \<open>
  An enumeration variable that was never set holds some enumerator here: which one is
  taken from the supply.
\<close>

definition raft_errors :: "raft_error list" where
  "raft_errors = [ErrNone, ErrCompacted, ErrSnapOutOfDate, ErrUnavailable,
     ErrSnapshotTemporarilyUnavailable, ErrProposalDropped, ErrParam]"

definition message_types :: "message_type list" where
  "message_types = [MsgHup, MsgBeat, MsgProp, MsgApp, MsgAppResp, MsgVote, MsgVoteResp, MsgSnap,
     MsgHeartbeat, MsgHeartbeatResp, MsgUnreachable, MsgSnapStatus, MsgCheckQuorum,
     MsgTransferLeader, MsgTimeoutNow, MsgReadIndex, MsgReadIndexResp, MsgPreVote, MsgPreVoteResp]"

definition indet_error :: "env \<Rightarrow> raft_error" where
  "indet_error g = raft_errors ! (unat (indet_u64 g) mod 7)"

definition indet_message_type :: "env \<Rightarrow> message_type" where
  "indet_message_type g = message_types ! (unat (indet_u64 g) mod 19)"

lemma raft_errors_complete: "set raft_errors = UNIV"
proof -
  have "e \<in> set raft_errors" for e by (cases e) (simp_all add: raft_errors_def)
  then show ?thesis by auto
qed

lemma message_types_complete: "set message_types = UNIV"
proof -
  have "e \<in> set message_types" for e by (cases e) (simp_all add: message_types_def)
  then show ?thesis by auto
qed

section \<open>Messages\<close>

record hard_state =
  hs_term :: u64
  hs_vote :: u64
  hs_commit :: u64

record conf_state =
  cs_nodes :: "u64 list"
  cs_learners :: "u64 list"

record conf_change =
  cc_id :: u64
  cc_type :: conf_change_type
  cc_node_id :: u64
  cc_context :: bytes

record log_entry =
  le_term :: u64
  le_index :: u64
  le_data :: bytes
  le_type :: entry_type

record snapshot_metadata =
  sm_conf_state :: conf_state
  sm_index :: u64
  sm_term :: u64

record snapshot =
  sn_data :: bytes
  sn_metadata :: snapshot_metadata

record message =
  m_type :: message_type
  m_to :: u64
  m_from :: u64
  m_term :: u64
  m_log_term :: u64
  m_index :: u64
  m_entries :: "log_entry list"
  m_commit :: u64
  m_snapshot :: snapshot
  m_reject :: bool
  m_reject_hint :: u64
  m_context :: bytes

record vote_request =
  vq_term :: int
  vq_candidate_id :: string
  vq_last_log_index :: int
  vq_last_log_term :: int

record vote_response =
  vr_term :: int
  vr_vote_granted :: bool

record append_entries_request =
  aq_term :: int
  aq_leader_id :: string
  aq_prev_log_index :: int
  aq_prev_log_term :: int
  aq_entries :: "log_entry list"
  aq_leader_commit :: int

record append_entries_response =
  ar_term :: int
  ar_success :: bool

section \<open>Freshly constructed messages\<close>

definition new_hard_state :: hard_state where
  "new_hard_state = \<lparr>hs_term = 0, hs_vote = 0, hs_commit = 0\<rparr>"

definition new_conf_state :: conf_state where
  "new_conf_state = \<lparr>cs_nodes = [], cs_learners = []\<rparr>"

definition new_conf_change :: conf_change where
  "new_conf_change = \<lparr>cc_id = 0, cc_type = ConfChangeAddNode, cc_node_id = 0, cc_context = []\<rparr>"

definition new_log_entry :: log_entry where
  "new_log_entry = \<lparr>le_term = 0, le_index = 0, le_data = [], le_type = EntryNormal\<rparr>"

definition new_snapshot :: snapshot where
  "new_snapshot = \<lparr>sn_data = [],
     sn_metadata = \<lparr>sm_conf_state = new_conf_state, sm_index = 0, sm_term = 0\<rparr>\<rparr>"

definition new_message :: message where
  "new_message = \<lparr>m_type = MsgHup, m_to = 0, m_from = 0, m_term = 0, m_log_term = 0,
     m_index = 0, m_entries = [], m_commit = 0, m_snapshot = new_snapshot,
     m_reject = False, m_reject_hint = 0, m_context = []\<rparr>"

definition entry_at :: "u64 \<Rightarrow> u64 \<Rightarrow> log_entry" where
  "entry_at i t = new_log_entry\<lparr>le_index := i, le_term := t\<rparr>"

lemma entry_at_sel [simp]: "le_index (entry_at i t) = i" "le_term (entry_at i t) = t"
  by (simp_all add: entry_at_def new_log_entry_def)

lemma new_message_sel [simp]:
  "m_type new_message = MsgHup" "m_to new_message = 0" "m_from new_message = 0"
  "m_term new_message = 0" "m_index new_message = 0" "m_entries new_message = []"
  "m_commit new_message = 0" "m_reject new_message = False" "m_reject_hint new_message = 0"
  by (simp_all add: new_message_def)

section \<open>Contiguous runs of entries\<close>

text \<open>
  Storage, the unstable tail and an incoming batch all hold entries whose indices go up
  by one. \<open>contiguous i es\<close>: the first of \<open>es\<close> has index \<open>i\<close>, and so on. Indices are
  compared as naturals, so a run never wraps around.
\<close>

fun contiguous :: "nat \<Rightarrow> log_entry list \<Rightarrow> bool" where
  "contiguous i [] = True"
| "contiguous i (e # es) = (unat (le_index e) = i \<and> contiguous (Suc i) es)"

lemma contiguous_append [simp]:
  "contiguous i (xs @ ys) \<longleftrightarrow> contiguous i xs \<and> contiguous (i + length xs) ys"
  by (induction xs arbitrary: i) auto

lemma contiguous_nth: "contiguous i es \<Longrightarrow> k < length es \<Longrightarrow> unat (le_index (es ! k)) = i + k"
  by (induction es arbitrary: i k) (auto simp: nth_Cons split: nat.splits)

lemma contiguous_drop: "contiguous i es \<Longrightarrow> k \<le> length es \<Longrightarrow> contiguous (i + k) (drop k es)"
proof (induction k arbitrary: i es)
  case 0
  then show ?case by simp
next
  case (Suc k)
  then obtain e es' where "es = e # es'" by (cases es) auto
  with Suc.prems Suc.IH [of "Suc i" es'] show ?case by simp
qed

lemma contiguous_take: "contiguous i es \<Longrightarrow> contiguous i (take k es)"
  using contiguous_append [of i "take k es" "drop k es"] by simp

lemma contiguous_bound: "contiguous i es \<Longrightarrow> es \<noteq> [] \<Longrightarrow> i + length es \<le> 18446744073709551616"
  using contiguous_nth [of i es "length es - 1"] unat_less_2_64 [of "le_index (es ! (length es - 1))"]
  by (cases es) auto

lemma contiguous_hd: "contiguous i es \<Longrightarrow> es \<noteq> [] \<Longrightarrow> unat (le_index (hd es)) = i"
  by (cases es) auto

lemma contiguous_hd_eq: "contiguous i (e # es) \<Longrightarrow> le_index e = of_nat i"
  by auto

end
