(* ===== verification/Memory_Storage.thy ===== *)
theory Memory_Storage
  imports Raft_Proto
begin

text \<open>
  \<^verbatim>\<open>src/src/anraft/storage.h\<close> and \<^verbatim>\<open>storage.cpp\<close>: the interface \<open>Storage\<close> and its
  implementation \<open>MemoryStorage\<close>. \<open>ms_ents\<close> starts with a dummy entry that holds the
  index and term of the last compacted entry; the entries after it are the log. The
  abstract view is the dummy's index and the list of terms from there on.
\<close>

section \<open>The interface\<close>

text \<open>
  The virtual functions of \<open>Storage\<close>, as the object a \<open>Storage*\<close> points to offers them.
\<close>

record storage =
  so_initial_state :: "hard_state \<times> conf_state \<times> raft_error"
  so_entries :: "u64 \<Rightarrow> u64 \<Rightarrow> u64 \<Rightarrow> (log_entry list \<times> raft_error) option"
  so_term :: "u64 \<Rightarrow> (u64 \<times> raft_error) option"
  so_last_index :: "(u64 \<times> raft_error) option"
  so_first_index :: "(u64 \<times> raft_error) option"
  so_snap_shot :: "snapshot \<times> raft_error"

section \<open>MemoryStorage\<close>

record memory_storage =
  ms_hard_state :: hard_state
  ms_conf_state :: conf_state
  ms_snap :: snapshot
  ms_ents :: "log_entry list"

definition new_memory_storage :: memory_storage where
  "new_memory_storage = \<lparr>ms_hard_state = new_hard_state, ms_conf_state = new_conf_state,
     ms_snap = new_snapshot, ms_ents = [new_log_entry]\<rparr>"

definition ms_initial_state :: "memory_storage \<Rightarrow> hard_state \<times> conf_state \<times> raft_error" where
  "ms_initial_state m = (ms_hard_state m, ms_conf_state m, ErrNone)"

text \<open>
  As in \<open>un_slice\<close> of \<open>Log_Unstable\<close>, of \<open>begin() + offset + hi - lo\<close> the range that is copied is
  checked, not the sums on the way.
\<close>

definition ms_entries :: "memory_storage \<Rightarrow> u64 \<Rightarrow> u64 \<Rightarrow> u64 \<Rightarrow> (log_entry list \<times> raft_error) option" where
  "ms_entries m lo hi max_size = do {
     e0 \<leftarrow> vec_at (ms_ents m) 0;
     let offset = le_index e0;
     if lo \<le> offset then Some ([], ErrCompacted)
     else if offset + vec_size (ms_ents m) < hi then Some ([], ErrCompacted)
     else do {
       target \<leftarrow> vec_range (ms_ents m) offset (offset + hi - lo);
       Some (target, ErrNone)
     }
   }"

definition ms_term :: "memory_storage \<Rightarrow> u64 \<Rightarrow> (u64 \<times> raft_error) option" where
  "ms_term m i = do {
     e0 \<leftarrow> vec_at (ms_ents m) 0;
     let offset = le_index e0;
     if i < offset then Some (0, ErrCompacted)
     else if offset + vec_size (ms_ents m) - 1 < i then Some (0, ErrUnavailable)
     else do {
       e \<leftarrow> vec_at (ms_ents m) (i - offset);
       Some (le_term e, ErrNone)
     }
   }"

definition ms_last_index :: "memory_storage \<Rightarrow> (u64 \<times> raft_error) option" where
  "ms_last_index m = do {
     e0 \<leftarrow> vec_at (ms_ents m) 0;
     Some (le_index e0 + vec_size (ms_ents m) - 1, ErrNone)
   }"

definition ms_first_index :: "memory_storage \<Rightarrow> (u64 \<times> raft_error) option" where
  "ms_first_index m = do {
     e0 \<leftarrow> vec_at (ms_ents m) 0;
     Some (le_index e0 + 1, ErrNone)
   }"

definition ms_snap_shot :: "memory_storage \<Rightarrow> snapshot \<times> raft_error" where
  "ms_snap_shot m = (ms_snap m, ErrNone)"

definition ms_set_hard_state :: "hard_state \<Rightarrow> memory_storage \<Rightarrow> raft_error \<times> memory_storage" where
  "ms_set_hard_state hs m = (ErrNone, m\<lparr>ms_hard_state := hs\<rparr>)"

definition ms_append :: "log_entry list \<Rightarrow> memory_storage \<Rightarrow> (raft_error \<times> memory_storage) option" where
  "ms_append entries m =
     (if entries = [] then Some (ErrNone, m)
      else do {
        e0 \<leftarrow> vec_at (ms_ents m) 0;
        n0 \<leftarrow> vec_at entries 0;
        let old_first = le_index e0 + 1;
        let old_last = old_first + vec_size (ms_ents m) - 1;
        let new_first = le_index n0;
        let new_last = le_index n0 + vec_size entries - 1;
        if new_last \<le> old_first then Some (ErrNone, m)
        else if old_last < new_first then Some (ErrNone, m)
        else do {
          let offset = old_last - new_first;
          tail \<leftarrow> vec_range entries offset (vec_size entries);
          Some (ErrNone, m\<lparr>ms_ents := ms_ents m @ tail\<rparr>)
        }
      })"

definition ms_compact :: "u64 \<Rightarrow> memory_storage \<Rightarrow> (raft_error rv \<times> memory_storage) option" where
  "ms_compact compact_index m = do {
     e0 \<leftarrow> vec_at (ms_ents m) 0;
     let offset = le_index e0;
     let last_index = offset + vec_size (ms_ents m) + 1;
     if compact_index \<le> offset then Some (Returns ErrCompacted, m)
     else if last_index < compact_index then Some (Returns ErrCompacted, m)
     else do {
       let compact_num = compact_index - offset;
       e \<leftarrow> vec_at (ms_ents m) compact_num;
       let e0 = e0\<lparr>le_index := le_index e, le_term := le_term e\<rparr>;
       erased \<leftarrow> vec_range (ms_ents m) 1 (1 + compact_num);
       Some (NoReturn, m\<lparr>ms_ents := e0 # drop (unat (1 + compact_num)) (ms_ents m)\<rparr>)
     }
   }"

text \<open>The object behind a \<open>Storage*\<close> that points to a \<open>MemoryStorage\<close>.\<close>

definition ms_storage :: "memory_storage \<Rightarrow> storage" where
  "ms_storage m = \<lparr>so_initial_state = ms_initial_state m, so_entries = ms_entries m,
     so_term = ms_term m, so_last_index = ms_last_index m, so_first_index = ms_first_index m,
     so_snap_shot = ms_snap_shot m\<rparr>"

section \<open>Well-formed storages and their abstract view\<close>

text \<open>
  The dummy entry is there, the indices go up by one from it, and all of them are
  nonnegative \<^verbatim>\<open>int64\<close> values.
\<close>

definition ms_base :: "memory_storage \<Rightarrow> nat" where
  "ms_base m = unat (le_index (hd (ms_ents m)))"

definition ms_last :: "memory_storage \<Rightarrow> nat" where
  "ms_last m = ms_base m + length (ms_ents m) - 1"

definition ms_wf :: "memory_storage \<Rightarrow> bool" where
  "ms_wf m \<longleftrightarrow> ms_ents m \<noteq> [] \<and> contiguous (ms_base m) (ms_ents m)
     \<and> ms_last m < 9223372036854775808"

record log_view =
  lv_base :: nat
  lv_terms :: "u64 list"

definition ms_view :: "memory_storage \<Rightarrow> log_view" where
  "ms_view m = \<lparr>lv_base = ms_base m, lv_terms = map le_term (ms_ents m)\<rparr>"

text \<open>The abstract specification of the log that a storage holds.\<close>

definition view_last :: "log_view \<Rightarrow> nat" where
  "view_last v = lv_base v + length (lv_terms v) - 1"

definition view_term :: "log_view \<Rightarrow> nat \<Rightarrow> u64 \<times> raft_error" where
  "view_term v i =
     (if i < lv_base v then (0, ErrCompacted)
      else if view_last v < i then (0, ErrUnavailable)
      else (lv_terms v ! (i - lv_base v), ErrNone))"

definition view_compact :: "nat \<Rightarrow> log_view \<Rightarrow> log_view" where
  "view_compact i v = \<lparr>lv_base = i, lv_terms = drop (i - lv_base v) (lv_terms v)\<rparr>"

definition view_extend :: "u64 list \<Rightarrow> log_view \<Rightarrow> log_view" where
  "view_extend ts v = v\<lparr>lv_terms := lv_terms v @ ts\<rparr>"

section \<open>Reading a well-formed storage\<close>

lemma ms_wf_parts:
  assumes "ms_wf m"
  shows "ms_ents m \<noteq> []" "vec_at (ms_ents m) 0 = Some (hd (ms_ents m))"
    "unat (vec_size (ms_ents m)) = length (ms_ents m)" "0 < length (ms_ents m)"
    "ms_base m + length (ms_ents m) \<le> 9223372036854775808"
  using assms by (auto simp: ms_wf_def ms_last_def vec_at_0 unat_vec_size)

lemma ms_wf_end:
  assumes "ms_wf m"
  shows "unat (le_index (hd (ms_ents m)) + vec_size (ms_ents m)) = Suc (ms_last m)"
  using ms_wf_parts [OF assms] by (subst unat_add_u64) (auto simp: ms_base_def ms_last_def)

lemma ms_wf_end_minus:
  assumes "ms_wf m"
  shows "unat (le_index (hd (ms_ents m)) + vec_size (ms_ents m) - 1) = ms_last m"
  using ms_wf_end [OF assms] by (subst unat_sub_u64) (auto simp: word_le_nat_alt)

lemma ms_base_le_last: "ms_wf m \<Longrightarrow> ms_base m \<le> ms_last m"
  by (cases "ms_ents m") (auto simp: ms_wf_def ms_last_def)

lemma ms_index_nth: "ms_wf m \<Longrightarrow> k < length (ms_ents m) \<Longrightarrow> unat (le_index (ms_ents m ! k)) = ms_base m + k"
  by (auto simp: ms_wf_def contiguous_nth)

lemma ms_last_index_wf: "ms_wf m \<Longrightarrow> ms_last_index m = Some (of_nat (ms_last m), ErrNone)"
  using ms_wf_parts [of m] u64_eqI [OF ms_wf_end_minus [of m]] by (simp add: ms_last_index_def)

lemma ms_first_index_wf: "ms_wf m \<Longrightarrow> ms_first_index m = Some (of_nat (Suc (ms_base m)), ErrNone)"
  using ms_wf_parts [of m] by (simp add: ms_first_index_def ms_base_def)

lemma ms_term_wf:
  assumes "ms_wf m"
  shows "ms_term m i = Some (view_term (ms_view m) (unat i))"
proof -
  obtain n where n: "length (ms_ents m) = Suc n"
    using ms_wf_parts(4) [OF assms] gr0_conv_Suc by auto
  then have len: "ms_last m = ms_base m + n" by (simp add: ms_last_def)
  show ?thesis
    using ms_wf_parts(1,2) [OF assms] ms_wf_end_minus [OF assms] n
    by (auto simp: ms_term_def view_term_def view_last_def ms_view_def u64_order
        ms_base_def len vec_at_def unat_sub_u64 not_less)
qed

section \<open>Compact\<close>

lemma ms_compact_cases:
  assumes "ms_wf m"
  shows "unat ci \<le> ms_base m \<Longrightarrow> ms_compact ci m = Some (Returns ErrCompacted, m)"
    and "ms_last m + 2 < unat ci \<Longrightarrow> ms_compact ci m = Some (Returns ErrCompacted, m)"
    and "ms_last m < unat ci \<Longrightarrow> unat ci \<le> ms_last m + 2 \<Longrightarrow> ms_compact ci m = None"
proof -
  note parts = ms_wf_parts [OF assms]
  let ?h = "hd (ms_ents m)"
  have last: "unat (le_index ?h + vec_size (ms_ents m) + 1) = ms_last m + 2"
    using ms_wf_end [OF assms] parts(5) by (subst unat_add_u64) (auto simp: ms_last_def)
  have num: "unat (ci - le_index ?h) = unat ci - ms_base m" if "ms_base m \<le> unat ci"
    using that by (simp add: unat_sub_u64 u64_order ms_base_def)
  show "unat ci \<le> ms_base m \<Longrightarrow> ms_compact ci m = Some (Returns ErrCompacted, m)"
    using parts by (simp add: ms_compact_def u64_order ms_base_def)
  show "ms_last m + 2 < unat ci \<Longrightarrow> ms_compact ci m = Some (Returns ErrCompacted, m)"
    using parts last by (simp add: ms_compact_def u64_order)
  show "ms_compact ci m = None" if "ms_last m < unat ci" "unat ci \<le> ms_last m + 2"
  proof -
    have "ms_base m < unat ci" using that ms_base_le_last [OF assms] by simp
    moreover from this have "length (ms_ents m) \<le> unat (ci - le_index ?h)"
      using num that by (simp add: ms_last_def)
    ultimately show ?thesis
      using parts last that
      by (simp add: ms_compact_def u64_order ms_base_def vec_at_None_iff [THEN iffD2])
  qed
qed

lemma contiguous_replace_hd:
  "contiguous i (e # es) \<Longrightarrow> le_index e' = le_index e \<Longrightarrow> contiguous i (e' # es)"
  by simp

text \<open>What a compaction inside the log leaves: the dummy takes over the index and term.\<close>

definition ms_compacted :: "nat \<Rightarrow> memory_storage \<Rightarrow> memory_storage" where
  "ms_compacted k m = m\<lparr>ms_ents :=
     (hd (ms_ents m))\<lparr>le_index := le_index (ms_ents m ! k), le_term := le_term (ms_ents m ! k)\<rparr>
       # drop (Suc k) (ms_ents m)\<rparr>"

lemma ms_compact_inside:
  assumes "ms_wf m" and "ms_base m < unat ci" and "unat ci \<le> ms_last m"
  shows "ms_compact ci m = Some (NoReturn, ms_compacted (unat ci - ms_base m) m)"
proof -
  note parts = ms_wf_parts [OF assms(1)]
  let ?h = "hd (ms_ents m)" and ?k = "unat ci - ms_base m"
  have last: "unat (le_index ?h + vec_size (ms_ents m) + 1) = ms_last m + 2"
    using ms_wf_end [OF assms(1)] parts(5) by (subst unat_add_u64) (auto simp: ms_last_def)
  have num: "unat (ci - le_index ?h) = ?k"
    using assms(2) by (simp add: unat_sub_u64 u64_order ms_base_def)
  have klt: "?k < length (ms_ents m)"
    using assms parts(4) by (auto simp: ms_last_def)
  have "unat (1 + (ci - le_index ?h)) = Suc ?k"
    using num klt parts(5) by (subst unat_add_u64) auto
  with assms(2,3) last num klt parts show ?thesis
    by (simp add: ms_compact_def ms_compacted_def u64_order ms_base_def vec_at_def vec_range_def)
qed

lemma ms_compacted_base: "k < length (ms_ents m) \<Longrightarrow> ms_wf m \<Longrightarrow> ms_base (ms_compacted k m) = ms_base m + k"
  using ms_index_nth [of m k] by (simp add: ms_base_def ms_compacted_def)

lemma ms_compacted_wf:
  assumes "ms_wf m" and "k < length (ms_ents m)"
  shows "ms_wf (ms_compacted k m)"
proof -
  have "contiguous (ms_base m + k) (drop k (ms_ents m))"
    using assms by (intro contiguous_drop) (auto simp: ms_wf_def)
  moreover have "drop k (ms_ents m) = ms_ents m ! k # drop (Suc k) (ms_ents m)"
    using assms(2) by (simp add: Cons_nth_drop_Suc)
  ultimately have "contiguous (ms_base m + k) (ms_ents (ms_compacted k m))"
    by (simp add: ms_compacted_def)
  then show ?thesis
    using assms ms_compacted_base [OF assms(2,1)]
    by (auto simp: ms_wf_def ms_last_def) (auto simp: ms_compacted_def)
qed

lemma ms_compacted_view:
  assumes "ms_wf m" and "k < length (ms_ents m)"
  shows "ms_view (ms_compacted k m) = view_compact (ms_base m + k) (ms_view m)"
proof -
  have "map le_term (ms_ents (ms_compacted k m)) = map le_term (ms_ents m ! k # drop (Suc k) (ms_ents m))"
    by (simp add: ms_compacted_def)
  also have "\<dots> = drop k (map le_term (ms_ents m))"
    using assms(2) by (simp add: Cons_nth_drop_Suc drop_map)
  finally show ?thesis
    using ms_compacted_base [OF assms(2,1)] by (simp add: ms_view_def view_compact_def)
qed

section \<open>Append\<close>

text \<open>
  The three outcomes of \<open>Append\<close> on a batch whose indices go up by one from \<open>nf\<close>: the batch
  ends at or before the first index, or starts behind a gap (both ignored); otherwise the
  part after the last stored index is appended and the overlap is kept as it was stored.
\<close>

lemma ms_append_cases:
  assumes "ms_wf m" and new: "contiguous nf es" "es \<noteq> []" "nf + length es \<le> 9223372036854775808"
  shows "nf + length es \<le> ms_base m + 2 \<Longrightarrow> ms_append es m = Some (ErrNone, m)"
    and "ms_last m + 1 < nf \<Longrightarrow> ms_append es m = Some (ErrNone, m)"
    and "ms_base m + 2 < nf + length es \<Longrightarrow> nf \<le> ms_last m + 1 \<Longrightarrow>
      ms_append es m =
        (if ms_last m + 1 \<le> nf + length es
         then Some (ErrNone, m\<lparr>ms_ents := ms_ents m @ drop (ms_last m + 1 - nf) es\<rparr>) else None)"
proof -
  note parts = ms_wf_parts [OF assms(1)]
  let ?h = "hd (ms_ents m)"
  obtain e es' where es: "es = e # es'" using new(2) by (cases es) auto
  have e: "unat (le_index e) = nf" using new(1) by (simp add: es)
  have sz: "unat (vec_size es) = length es"
    using new(3) by (intro unat_vec_size) simp
  have first: "unat (le_index ?h + 1) = ms_base m + 1"
    using parts by (subst unat_add_u64) (auto simp: ms_base_def)
  have sum: "unat (le_index ?h + 1 + vec_size (ms_ents m)) = ms_last m + 2"
    using parts first by (subst unat_add_u64) (auto simp: ms_last_def)
  have old_last: "unat (le_index ?h + 1 + vec_size (ms_ents m) - 1) = ms_last m + 1"
    using sum by (subst unat_sub_u64) (auto simp: u64_order)
  have nsum: "unat (le_index e + vec_size es) = nf + length es"
    using new(3) e sz by (subst unat_add_u64) auto
  have new_last: "unat (le_index e + vec_size es - 1) = nf + length es - 1"
    using nsum es by (subst unat_sub_u64) (auto simp: u64_order)
  note vals = first old_last new_last e sz [simplified es] parts(2)
  show "nf + length es \<le> ms_base m + 2 \<Longrightarrow> ms_append es m = Some (ErrNone, m)"
    using vals es by (simp add: ms_append_def u64_order)
  show "ms_last m + 1 < nf \<Longrightarrow> ms_append es m = Some (ErrNone, m)"
    using vals es by (simp add: ms_append_def u64_order)
  assume "ms_base m + 2 < nf + length es" and nf: "nf \<le> ms_last m + 1"
  moreover have "unat (le_index ?h + 1 + vec_size (ms_ents m) - 1 - le_index e) = ms_last m + 1 - nf"
    using nf e old_last by (subst unat_sub_u64) (auto simp: u64_order)
  ultimately show "ms_append es m =
        (if ms_last m + 1 \<le> nf + length es
         then Some (ErrNone, m\<lparr>ms_ents := ms_ents m @ drop (ms_last m + 1 - nf) es\<rparr>) else None)"
    using vals es by (auto simp: ms_append_def u64_order vec_range_def)
qed

lemma ms_append_wf:
  assumes "ms_wf m" and "contiguous nf es" "nf + length es \<le> 9223372036854775808"
    and "nf \<le> ms_last m + 1" and "ms_last m + 1 \<le> nf + length es"
  defines "m' \<equiv> m\<lparr>ms_ents := ms_ents m @ drop (ms_last m + 1 - nf) es\<rparr>"
  shows "ms_wf m'" and "ms_base m' = ms_base m" and "ms_last m' = nf + length es - 1"
proof -
  note parts = ms_wf_parts [OF assms(1)]
  have next_index: "ms_base m + length (ms_ents m) = ms_last m + 1"
    using parts(4) by (simp add: ms_last_def)
  have "contiguous (nf + (ms_last m + 1 - nf)) (drop (ms_last m + 1 - nf) es)"
    using assms by (intro contiguous_drop) auto
  then have "contiguous (ms_base m) (ms_ents m')"
    using assms(1,4) next_index by (simp add: m'_def ms_wf_def)
  moreover show base: "ms_base m' = ms_base m"
    using parts(1) by (simp add: m'_def ms_base_def)
  moreover show last: "ms_last m' = nf + length es - 1"
  proof -
    have "length (ms_ents m') = length (ms_ents m) + (length es - (ms_last m + 1 - nf))"
      by (simp add: m'_def)
    then show ?thesis
      using assms(4,5) next_index unfolding ms_last_def [of m'] base by linarith
  qed
  moreover have "ms_ents m' \<noteq> []" using parts(1) by (simp add: m'_def)
  ultimately show "ms_wf m'" using assms(3) by (auto simp: ms_wf_def)
qed

section \<open>Entries\<close>

text \<open>What \<open>Entries\<close> copies: it starts at position \<open>offset\<close>, not at position \<open>lo - offset\<close>.\<close>

lemma ms_entries_inside:
  assumes "ms_wf m" and "ms_base m < unat lo" "unat lo \<le> unat hi" "unat hi \<le> ms_last m + 1"
  shows "ms_entries m lo hi mx =
    (if ms_base m + (unat hi - unat lo) \<le> length (ms_ents m)
     then Some (take (unat hi - unat lo) (drop (ms_base m) (ms_ents m)), ErrNone) else None)"
proof -
  note parts = ms_wf_parts [OF assms(1)]
  let ?h = "hd (ms_ents m)"
  have "unat (le_index ?h + hi) = ms_base m + unat hi"
    using assms parts by (subst unat_add_u64) (auto simp: ms_base_def ms_last_def)
  then have e: "unat (le_index ?h + hi - lo) = ms_base m + (unat hi - unat lo)"
    using assms by (subst unat_sub_u64) (auto simp: u64_order)
  have b: "unat (le_index ?h) = ms_base m" by (simp add: ms_base_def)
  from assms(2,4) show ?thesis
    by (simp add: ms_entries_def u64_order vec_range_def parts(2) ms_wf_end [OF assms(1)] e b)
qed

lemma ms_entries_outside:
  assumes "ms_wf m" and "unat lo \<le> ms_base m \<or> ms_last m + 1 < unat hi"
  shows "ms_entries m lo hi mx = Some ([], ErrCompacted)"
  using assms ms_wf_parts [OF assms(1)] ms_wf_end [OF assms(1)]
  by (auto simp: ms_entries_def u64_order ms_base_def)

section \<open>Runs of a storage\<close>

datatype storage_op =
    SetHardState hard_state
  | AppendEntries "log_entry list"
  | CompactTo u64

definition ms_exec :: "env \<Rightarrow> storage_op \<Rightarrow> memory_storage \<Rightarrow> memory_storage option" where
  "ms_exec g op m =
     (case op of
        SetHardState hs \<Rightarrow> Some (snd (ms_set_hard_state hs m))
      | AppendEntries es \<Rightarrow> map_option snd (ms_append es m)
      | CompactTo ci \<Rightarrow> map_option snd (ms_compact ci m))"

text \<open>A batch handed to \<open>Append\<close> has indices that go up by one and fit in an \<^verbatim>\<open>int64\<close>.\<close>

definition batch_ok :: "log_entry list \<Rightarrow> bool" where
  "batch_ok es \<longleftrightarrow> es = [] \<or> contiguous (unat (le_index (hd es))) es
     \<and> unat (le_index (hd es)) + length es \<le> 9223372036854775808"

definition storage_op_ok :: "storage_op \<Rightarrow> bool" where
  "storage_op_ok op = (case op of AppendEntries es \<Rightarrow> batch_ok es | _ \<Rightarrow> True)"

lemma post_map_option [simp]: "post (map_option f m) P = post m (\<lambda>x. P (f x))"
  by (cases m) simp_all

lemma ms_append_post:
  assumes "ms_wf m" and "batch_ok es"
  shows "post (ms_append es m) (\<lambda>r. fst r = ErrNone \<and> ms_wf (snd r) \<and> ms_base (snd r) = ms_base m
    \<and> (\<exists>tail. ms_ents (snd r) = ms_ents m @ tail))"
proof (cases "es = []")
  case True
  with assms(1) show ?thesis by (simp add: ms_append_def)
next
  case False
  let ?nf = "unat (le_index (hd es))"
  from assms(2) False have ok: "contiguous ?nf es" "?nf + length es \<le> 9223372036854775808"
    by (simp_all add: batch_ok_def)
  note cs = ms_append_cases [OF assms(1) ok(1) False ok(2)]
  consider "?nf + length es \<le> ms_base m + 2" | "ms_last m + 1 < ?nf"
    | "ms_base m + 2 < ?nf + length es" "?nf \<le> ms_last m + 1" by linarith
  then show ?thesis
  proof cases
    case 3
    then show ?thesis
      using cs(3) ms_append_wf [OF assms(1) ok 3(2)] by simp
  qed (use cs assms(1) in simp_all)
qed

lemma ms_compact_post:
  assumes "ms_wf m"
  shows "post (ms_compact ci m) (\<lambda>r. ms_wf (snd r))"
proof -
  consider "unat ci \<le> ms_base m" | "ms_last m + 2 < unat ci"
    | "ms_last m < unat ci" "unat ci \<le> ms_last m + 2"
    | "ms_base m < unat ci" "unat ci \<le> ms_last m" by linarith
  then show ?thesis
  proof cases
    case 4
    then have "unat ci - ms_base m < length (ms_ents m)"
      using ms_wf_parts(4) [OF assms] by (auto simp: ms_last_def)
    with 4 assms show ?thesis by (simp add: ms_compact_inside ms_compacted_wf)
  qed (use ms_compact_cases [OF assms] assms in simp_all)
qed

lemma ms_wf_new: "ms_wf new_memory_storage"
  by (simp add: ms_wf_def new_memory_storage_def ms_base_def ms_last_def new_log_entry_def)

lemma ms_wf_set_hard_state: "ms_wf m \<Longrightarrow> ms_wf (snd (ms_set_hard_state hs m))"
  by (simp add: ms_set_hard_state_def ms_wf_def ms_base_def ms_last_def)

lemma ms_exec_wf: "storage_op_ok op \<Longrightarrow> ms_wf m \<Longrightarrow> post (ms_exec g op m) ms_wf"
  using ms_append_post [of m, THEN post_mono] ms_compact_post [of m] ms_wf_set_hard_state [of m]
  by (cases op) (simp_all add: ms_exec_def storage_op_ok_def)

interpretation storage_run: invariant_machine ms_exec storage_op_ok ms_wf
  by unfold_locales (rule ms_exec_wf)

section \<open>The contract of the interface\<close>

text \<open>
  What the comments of \<^verbatim>\<open>storage.h\<close> promise about the index and term queries, over the
  abstract view. \<open>RaftLog\<close> is a client of this contract.
\<close>

locale storage_contract =
  fixes obj :: "'m \<Rightarrow> storage"
    and valid :: "'m \<Rightarrow> bool"
    and view :: "'m \<Rightarrow> log_view"
  assumes first_index: "valid m \<Longrightarrow> so_first_index (obj m) = Some (of_nat (Suc (lv_base (view m))), ErrNone)"
    and last_index: "valid m \<Longrightarrow> so_last_index (obj m) = Some (of_nat (view_last (view m)), ErrNone)"
    and term_of: "valid m \<Longrightarrow> so_term (obj m) i = Some (view_term (view m) (unat i))"
    and base_le_last: "valid m \<Longrightarrow> lv_base (view m) \<le> view_last (view m)"
    and last_bound: "valid m \<Longrightarrow> view_last (view m) < 9223372036854775808"
begin

lemma first_index_unat: "valid m \<Longrightarrow> unat (of_nat (Suc (lv_base (view m))) :: u64) = Suc (lv_base (view m))"
  using base_le_last [of m] last_bound [of m] by (intro unat_of_nat_u64) simp

lemma last_index_unat: "valid m \<Longrightarrow> unat (of_nat (view_last (view m)) :: u64) = view_last (view m)"
  using last_bound [of m] by (intro unat_of_nat_u64) simp

lemma term_in_range:
  "valid m \<Longrightarrow> lv_base (view m) \<le> unat i \<Longrightarrow> unat i \<le> view_last (view m) \<Longrightarrow>
    so_term (obj m) i = Some (lv_terms (view m) ! (unat i - lv_base (view m)), ErrNone)"
  by (simp add: term_of view_term_def)

end

lemma ms_view_sel [simp]: "lv_base (ms_view m) = ms_base m" "view_last (ms_view m) = ms_last m"
  by (simp_all add: ms_view_def view_last_def ms_last_def)

interpretation ms: storage_contract ms_storage ms_wf ms_view
  by unfold_locales
    (simp_all add: ms_storage_def ms_first_index_wf ms_last_index_wf ms_term_wf ms_base_le_last,
     simp add: ms_wf_def)

section \<open>Properties\<close>

text \<open>C32: Starting from a new storage, every sequence of \<open>SetHardState\<close>, \<open>Append\<close> and
  \<open>Compact\<close> calls whose batches are contiguous keeps the storage well formed: the dummy entry
  stays in place and indices go up by one. It holds for every run that stays defined.\<close>

theorem storage_runs_well_formed:
  assumes "list_all storage_op_ok ops"
    and "for_each ms_exec g ops new_memory_storage = Some m"
  shows "ms_wf m"
  using storage_run.run_keeps [OF assms(1) ms_wf_new, of g] assms(2) by simp

definition sample_ops :: "storage_op list" where
  "sample_ops = [AppendEntries [entry_at 1 1, entry_at 2 1, entry_at 3 2], CompactTo 2]"

definition sample_storage :: memory_storage where
  "sample_storage = new_memory_storage\<lparr>ms_ents := [entry_at 2 1, entry_at 3 2]\<rparr>"

lemma sample_ops_run: "for_each ms_exec g sample_ops new_memory_storage = Some sample_storage"
  by (simp add: sample_ops_def ms_exec_def ms_append_def ms_compact_def new_memory_storage_def
      new_log_entry_def entry_at_def vec_eval sample_storage_def)

theorem storage_runs_well_formed_witness: "ms_wf sample_storage"
proof -
  have "list_all storage_op_ok sample_ops"
    by (simp add: sample_ops_def storage_op_ok_def batch_ok_def)
  then show ?thesis by (rule storage_runs_well_formed [OF _ sample_ops_run])
qed

text \<open>\<open>Term\<close> implements the abstract lookup: on a well-formed storage it returns the term
  stored for the index, \<open>ErrCompacted\<close> below the dummy entry and \<open>ErrUnavailable\<close> above the
  last entry, and it never reads outside the vector.\<close>

theorem storage_term_refines:
  assumes "ms_wf m"
  shows "ms_term m i = Some (view_term (ms_view m) (unat i))"
  using assms by (rule ms_term_wf)

theorem storage_term_refines_witness: "ms_term sample_storage 3 = Some (2, ErrNone)"
  using storage_term_refines [OF storage_runs_well_formed_witness, of 3]
  by (simp add: view_term_def view_last_def ms_view_def ms_base_def sample_storage_def)

text \<open>C34: \<open>Compact\<close> at an index inside the log implements the abstract compaction: the view is
  cut at that index, the entries behind it are the old ones, and the storage stays well
  formed.\<close>

theorem storage_compact_refines:
  assumes "ms_wf m" and "ms_base m < unat ci" and "unat ci \<le> ms_last m"
  shows "\<exists>m'. ms_compact ci m = Some (NoReturn, m') \<and> ms_wf m'
    \<and> ms_view m' = view_compact (unat ci) (ms_view m)
    \<and> tl (ms_ents m') = drop (Suc (unat ci - ms_base m)) (ms_ents m)"
proof -
  let ?k = "unat ci - ms_base m"
  have "?k < length (ms_ents m)"
    using assms ms_wf_parts(4) [OF assms(1)] by (auto simp: ms_last_def)
  moreover from assms(2) have "ms_base m + ?k = unat ci" by simp
  ultimately show ?thesis
    using assms ms_compacted_view [of m ?k]
    by (intro exI [of _ "ms_compacted ?k m"])
      (simp add: ms_compact_inside ms_compacted_wf, simp add: ms_compacted_def)
qed

theorem storage_compact_refines_witness:
  "\<exists>m'. ms_compact 3 sample_storage = Some (NoReturn, m') \<and> lv_terms (ms_view m') = [2]"
  using storage_compact_refines [OF storage_runs_well_formed_witness, of 3]
  by (auto simp: view_compact_def ms_view_def ms_base_def ms_last_def sample_storage_def)

text \<open>C33: \<open>Append\<close> of a contiguous batch that touches or overlaps the end of the log and
  reaches past its first index implements the abstract extension: the overlap is skipped, the
  terms of the new suffix follow the old ones, and the storage stays well formed. Entries that
  are already stored are never rewritten.\<close>

theorem storage_append_refines:
  assumes "ms_wf m" and "contiguous nf es" and "nf + length es \<le> 9223372036854775808"
    and "ms_base m + 2 < nf + length es"
    and "nf \<le> ms_last m + 1" and "ms_last m + 1 \<le> nf + length es"
  shows "\<exists>m'. ms_append es m = Some (ErrNone, m') \<and> ms_wf m' \<and> ms_last m' = nf + length es - 1
    \<and> ms_view m' = view_extend (map le_term (drop (ms_last m + 1 - nf) es)) (ms_view m)"
proof (cases "es = []")
  case True
  with assms show ?thesis
    by (auto simp: ms_append_def view_extend_def ms_view_def)
next
  case False
  let ?m = "m\<lparr>ms_ents := ms_ents m @ drop (ms_last m + 1 - nf) es\<rparr>"
  note wf = ms_append_wf [OF assms(1-3,5,6)]
  have "ms_append es m = Some (ErrNone, ?m)"
    using ms_append_cases(3) [OF assms(1,2) False assms(3-5)] assms(6) by simp
  with wf show ?thesis
    by (intro exI [of _ ?m]) (simp add: view_extend_def ms_view_def)
qed

theorem storage_append_refines_witness:
  "\<exists>m'. ms_append [entry_at 3 9, entry_at 4 5] sample_storage = Some (ErrNone, m')
    \<and> lv_terms (ms_view m') = [1, 2, 5]"
  using storage_append_refines [OF storage_runs_well_formed_witness, of 3 "[entry_at 3 9, entry_at 4 5]"]
  by (auto simp: view_extend_def ms_view_def ms_base_def ms_last_def sample_storage_def)

text \<open>The other batches: one that ends at or before the first index of the log, or starts
  behind a gap, is dropped and still answered with \<open>ErrNone\<close> (so the first entry of a new
  storage is lost when it comes alone); one that ends strictly inside the log makes an invalid
  iterator range.\<close>

theorem storage_append_other_batches:
  assumes "ms_wf m" and "contiguous nf es" and "es \<noteq> []" and "nf + length es \<le> 9223372036854775808"
  shows "(nf + length es \<le> ms_base m + 2 \<or> ms_last m + 1 < nf \<longrightarrow> ms_append es m = Some (ErrNone, m))
    \<and> (ms_base m + 2 < nf + length es \<and> nf + length es \<le> ms_last m \<longrightarrow> ms_append es m = None)"
  using ms_append_cases [OF assms] by auto

theorem storage_append_other_batches_witness:
  "ms_append [entry_at 1 1] new_memory_storage = Some (ErrNone, new_memory_storage)"
  using storage_append_other_batches [OF ms_wf_new, of 1 "[entry_at 1 1]"]
  by (simp add: new_memory_storage_def)

text \<open>What \<open>Entries\<close> hands out for a range inside the log: \<open>hi - lo\<close> entries that start
  at position \<open>offset\<close> of the vector, so the \<open>k\<close>-th of them has index \<open>2 * offset + k\<close>. It is
  the requested slice exactly when \<open>lo\<close> is twice the offset; an uncompacted storage answers
  every request with entries from the dummy on.\<close>

theorem storage_entries_positions:
  assumes "ms_wf m" and "ms_base m < unat lo" "unat lo \<le> unat hi" "unat hi \<le> ms_last m + 1"
    and "ms_entries m lo hi mx = Some (es, e)"
  shows "e = ErrNone \<and> length es = unat hi - unat lo
    \<and> map (\<lambda>x. unat (le_index x)) es = map (\<lambda>k. 2 * ms_base m + k) [0..<unat hi - unat lo]"
proof -
  have r: "ms_base m + (unat hi - unat lo) \<le> length (ms_ents m)"
    and es: "es = take (unat hi - unat lo) (drop (ms_base m) (ms_ents m))" and e: "e = ErrNone"
    using ms_entries_inside [OF assms(1-4), of mx] assms(5) by (auto split: if_splits)
  from es r have len: "length es = unat hi - unat lo" by simp
  have "unat (le_index (es ! k)) = 2 * ms_base m + k" if "k < length es" for k
    using that es r ms_index_nth [OF assms(1), of "ms_base m + k"] by simp
  with e len show ?thesis by (auto intro!: nth_equalityI)
qed

theorem storage_entries_positions_witness:
  "\<exists>es. ms_entries (new_memory_storage\<lparr>ms_ents := [new_log_entry, entry_at 1 1, entry_at 2 1]\<rparr>) 2 3 0
      = Some (es, ErrNone) \<and> map (\<lambda>x. unat (le_index x)) es = [0]"
proof -
  let ?m = "new_memory_storage\<lparr>ms_ents := [new_log_entry, entry_at 1 1, entry_at 2 1]\<rparr>"
  have wf: "ms_wf ?m" and b: "ms_base ?m = 0" "ms_last ?m = 2"
    by (simp_all add: ms_wf_def ms_base_def ms_last_def new_log_entry_def)
  have run: "ms_entries ?m 2 3 0 = Some ([new_log_entry], ErrNone)"
    by (simp add: ms_entries_def vec_eval new_log_entry_def)
  show ?thesis
    using storage_entries_positions [OF wf, of 2 3 0 "[new_log_entry]" ErrNone] run b by simp
qed

text \<open>The off-by-two in the upper check of \<open>Compact\<close>: an index one or two past the last
  entry passes the check and then reads outside the vector; every index beyond that, and every
  index already compacted, is refused with \<open>ErrCompacted\<close>.\<close>

theorem storage_compact_beyond_end:
  assumes "ms_wf m"
  shows "ms_compact ci m = None \<longleftrightarrow> ms_last m < unat ci \<and> unat ci \<le> ms_last m + 2"
proof -
  consider "unat ci \<le> ms_base m" | "ms_last m + 2 < unat ci"
    | "ms_last m < unat ci" "unat ci \<le> ms_last m + 2"
    | "ms_base m < unat ci" "unat ci \<le> ms_last m" by linarith
  then show ?thesis
    using ms_compact_cases [OF assms] ms_compact_inside [OF assms] ms_base_le_last [OF assms]
    by cases auto
qed

theorem storage_compact_beyond_end_witness: "ms_compact 4 sample_storage = None"
  using storage_compact_beyond_end [OF storage_runs_well_formed_witness, of 4]
  by (simp add: ms_last_def ms_base_def sample_storage_def)

end
