(* ===== verification/Log_Unstable.thy ===== *)
theory Log_Unstable
  imports Raft_Proto
begin

text \<open>
  \<^verbatim>\<open>src/src/anraft/log_unstable.h\<close> and \<^verbatim>\<open>log_unstable.cpp\<close>: the tail of the log that
  is not in storage yet. Entry \<open>i\<close> of \<open>un_ents\<close> has log position \<open>un_offset + i\<close>.
\<close>

record unstable =
  un_snapshot :: snapshot
  un_ents :: "log_entry list"
  un_offset :: u64

definition new_unstable :: unstable where
  "new_unstable = \<lparr>un_snapshot = new_snapshot, un_ents = [], un_offset = 0\<rparr>"

definition un_set_offset :: "u64 \<Rightarrow> unstable \<Rightarrow> unstable" where
  "un_set_offset offset u = u\<lparr>un_offset := offset\<rparr>"

definition un_maybe_last_index :: "unstable \<Rightarrow> u64 \<times> bool" where
  "un_maybe_last_index u =
     (if un_ents u \<noteq> [] then (un_offset u + vec_size (un_ents u) - 1, True) else (0, False))"

definition un_maybe_first_index :: "unstable \<Rightarrow> u64 \<times> bool" where
  "un_maybe_first_index u = (0, False)"

definition un_truncate_and_append :: "log_entry list \<Rightarrow> unstable \<Rightarrow> unstable option" where
  "un_truncate_and_append entries u =
     (if entries = [] then Some u
      else do {
        e0 \<leftarrow> vec_at entries 0;
        let after = le_index e0;
        if after = un_offset u + vec_size (un_ents u)
        then Some (u\<lparr>un_ents := un_ents u @ entries\<rparr>)
        else if after \<le> un_offset u
        then Some (u\<lparr>un_offset := after, un_ents := entries\<rparr>)
        else do {
          temp \<leftarrow> vec_range (un_ents u) (un_offset u) after;
          Some (u\<lparr>un_ents := temp\<rparr>)
        }
      })"

text \<open>The slice is inserted in front of what the caller's vector \<open>out\<close> holds.
  The code forms \<open>begin() + lo - offset_\<close> from left to right, which for a positive \<open>offset_\<close> passes
  through an iterator behind the end; the model checks the range that is copied, not this step.\<close>

definition un_slice :: "u64 \<Rightarrow> u64 \<Rightarrow> log_entry list \<Rightarrow> unstable \<Rightarrow> log_entry list option" where
  "un_slice lo hi out u = do {
     r \<leftarrow> vec_range (un_ents u) (lo - un_offset u) (hi - un_offset u);
     Some (r @ out)
   }"

section \<open>Well-formed tails\<close>

text \<open>
  \<open>un_next\<close> is the position after the tail. The abstract view of a tail is the partial map
  from log positions to entries.
\<close>

definition un_next :: "unstable \<Rightarrow> nat" where
  "un_next u = unat (un_offset u) + length (un_ents u)"

definition un_wf :: "unstable \<Rightarrow> bool" where
  "un_wf u \<longleftrightarrow> contiguous (unat (un_offset u)) (un_ents u) \<and> un_next u \<le> 9223372036854775808"

definition un_lookup :: "unstable \<Rightarrow> nat \<Rightarrow> log_entry option" where
  "un_lookup u i =
     (if unat (un_offset u) \<le> i \<and> i < un_next u then Some (un_ents u ! (i - unat (un_offset u))) else None)"

lemma un_end:
  assumes "un_next u \<le> 9223372036854775808"
  shows "unat (un_offset u + vec_size (un_ents u)) = un_next u"
proof -
  have "unat (vec_size (un_ents u)) = length (un_ents u)"
    using assms by (intro unat_vec_size) (simp add: un_next_def)
  with assms show ?thesis by (subst unat_add_u64) (auto simp: un_next_def)
qed

lemma un_maybe_last_index_wf:
  assumes "un_next u \<le> 9223372036854775808" and "un_ents u \<noteq> []"
  shows "un_maybe_last_index u = (of_nat (un_next u - 1), True)"
proof -
  have "0 < un_next u" using assms(2) by (simp add: un_next_def)
  then have "unat (un_offset u + vec_size (un_ents u) - 1) = un_next u - 1"
    using un_end [OF assms(1)] by (subst unat_sub_u64) (auto simp: u64_order)
  then show ?thesis using assms(2) by (simp add: un_maybe_last_index_def u64_eqI)
qed

lemma un_slice_wf:
  assumes "un_wf u" and "unat (un_offset u) \<le> unat lo" "unat lo \<le> unat hi" "unat hi \<le> un_next u"
  shows "un_slice lo hi out u =
    Some (take (unat hi - unat lo) (drop (unat lo - unat (un_offset u)) (un_ents u)) @ out)"
proof -
  have "unat (lo - un_offset u) = unat lo - unat (un_offset u)"
    and "unat (hi - un_offset u) = unat hi - unat (un_offset u)"
    using assms by (simp_all add: unat_sub_u64 u64_order)
  with assms show ?thesis
    by (auto simp: un_slice_def vec_range_def un_next_def)
qed

lemma unstable_slice:
  assumes "un_wf u" and "unat (un_offset u) \<le> unat lo" "unat lo \<le> unat hi" "unat hi \<le> un_next u"
  shows "\<exists>es. un_slice lo hi out u = Some (es @ out) \<and> map Some es = map (un_lookup u) [unat lo..<unat hi]"
proof -
  let ?es = "take (unat hi - unat lo) (drop (unat lo - unat (un_offset u)) (un_ents u))"
  have "map Some ?es = map (un_lookup u) [unat lo..<unat hi]"
    using assms(2-4) by (intro nth_equalityI) (auto simp: un_lookup_def un_next_def)
  with un_slice_wf [OF assms] show ?thesis by blast
qed

text \<open>The three ways \<open>TruncateAndAppend\<close> takes a batch that starts at position \<open>a\<close>.\<close>

lemma un_append_next:
  assumes "un_next u \<le> 9223372036854775808" and "es \<noteq> []" and "unat (le_index (hd es)) = un_next u"
  shows "un_truncate_and_append es u = Some (u\<lparr>un_ents := un_ents u @ es\<rparr>)"
proof -
  have "le_index (hd es) = un_offset u + vec_size (un_ents u)"
    using un_end [OF assms(1)] assms(3) by (simp add: word_unat_eq_iff)
  with assms(2) show ?thesis by (simp add: un_truncate_and_append_def vec_at_0)
qed

lemma un_append_before:
  assumes "un_next u \<le> 9223372036854775808" and "es \<noteq> []"
    and "unat (le_index (hd es)) \<noteq> un_next u" and "unat (le_index (hd es)) \<le> unat (un_offset u)"
  shows "un_truncate_and_append es u = Some (u\<lparr>un_offset := le_index (hd es), un_ents := es\<rparr>)"
proof -
  have "le_index (hd es) \<noteq> un_offset u + vec_size (un_ents u)"
    using un_end [OF assms(1)] assms(3) by auto
  with assms(2,4) show ?thesis by (simp add: un_truncate_and_append_def vec_at_0 u64_order)
qed

lemma un_append_inside:
  assumes "un_next u \<le> 9223372036854775808" and "es \<noteq> []"
    and "unat (le_index (hd es)) \<noteq> un_next u" and "unat (un_offset u) < unat (le_index (hd es))"
  shows "un_truncate_and_append es u =
    (if unat (le_index (hd es)) \<le> length (un_ents u)
     then Some (u\<lparr>un_ents := take (unat (le_index (hd es)) - unat (un_offset u))
       (drop (unat (un_offset u)) (un_ents u))\<rparr>) else None)"
proof -
  have "le_index (hd es) \<noteq> un_offset u + vec_size (un_ents u)"
    using un_end [OF assms(1)] assms(3) by auto
  with assms(2,4) show ?thesis
    by (auto simp: un_truncate_and_append_def vec_at_0 u64_order vec_range_def)
qed

section \<open>Properties\<close>

text \<open>
  The abstract effect of \<open>TruncateAndAppend\<close>, as its comments describe it: positions from
  \<open>a\<close> on are replaced by the batch, positions below \<open>a\<close> are kept.
\<close>

definition truncated_with :: "nat \<Rightarrow> log_entry list \<Rightarrow> (nat \<Rightarrow> log_entry option) \<Rightarrow> nat \<Rightarrow> log_entry option" where
  "truncated_with a es f i =
     (if a \<le> i \<and> i < a + length es then Some (es ! (i - a)) else if i < a then f i else None)"

text \<open>The batches that the code handles, with the tail that they leave.\<close>

definition appended :: "log_entry list \<Rightarrow> unstable \<Rightarrow> unstable" where
  "appended es u =
     (if unat (le_index (hd es)) = un_next u then u\<lparr>un_ents := un_ents u @ es\<rparr>
      else u\<lparr>un_offset := le_index (hd es), un_ents := es\<rparr>)"

lemma un_append_appended:
  assumes "un_wf u" and "contiguous a es" and "es \<noteq> []" and "a + length es \<le> 9223372036854775808"
    and "a = un_next u \<or> a \<le> unat (un_offset u)"
  shows "un_truncate_and_append es u = Some (appended es u)"
    and "un_wf (appended es u)"
    and "un_lookup (appended es u) i = truncated_with a es (un_lookup u) i"
proof -
  from assms(1) have u: "contiguous (unat (un_offset u)) (un_ents u)" "un_next u \<le> 9223372036854775808"
    by (simp_all add: un_wf_def)
  have a: "unat (le_index (hd es)) = a" using assms(2,3) by (rule contiguous_hd)
  show "un_truncate_and_append es u = Some (appended es u)"
    using un_append_next [OF u(2) assms(3)] un_append_before [OF u(2) assms(3)] a assms(5)
    by (auto simp: appended_def)
  show "un_wf (appended es u)"
    using u assms(2,4) a by (auto simp: appended_def un_wf_def un_next_def)
  show "un_lookup (appended es u) i = truncated_with a es (un_lookup u) i"
    using assms(5) a
    by (auto simp: appended_def un_lookup_def truncated_with_def un_next_def nth_append diff_diff_left)
qed

text \<open>A batch that continues the tail, or that starts at or before its offset, is taken as
  the comments say: the tail then maps every position of the batch to its entry, keeps the
  positions below it, and its indices still go up by one.\<close>

theorem unstable_append_refines:
  assumes "un_wf u" and "contiguous a es" and "es \<noteq> []" and "a + length es \<le> 9223372036854775808"
    and "a = un_next u \<or> a \<le> unat (un_offset u)"
  shows "\<exists>u'. un_truncate_and_append es u = Some u' \<and> un_wf u'
    \<and> (\<forall>i. un_lookup u' i = truncated_with a es (un_lookup u) i)"
  using un_append_appended [OF assms] by blast

definition sample_unstable :: unstable where
  "sample_unstable = new_unstable\<lparr>un_offset := 5, un_ents := [entry_at 5 1, entry_at 6 1, entry_at 7 1]\<rparr>"

lemma sample_unstable_wf: "un_wf sample_unstable"
  by (simp add: un_wf_def sample_unstable_def un_next_def)

theorem unstable_append_refines_witness:
  "\<exists>u'. un_truncate_and_append [entry_at 8 2] sample_unstable = Some u' \<and> un_lookup u' 8 = Some (entry_at 8 2)
    \<and> un_lookup u' 6 = Some (entry_at 6 1)"
proof -
  have "8 = un_next sample_unstable" by (simp add: un_next_def sample_unstable_def)
  then obtain u' where "un_truncate_and_append [entry_at 8 2] sample_unstable = Some u'"
    and l: "\<And>i. un_lookup u' i = truncated_with 8 [entry_at 8 2] (un_lookup sample_unstable) i"
    using unstable_append_refines [OF sample_unstable_wf, of 8 "[entry_at 8 2]"] by auto
  moreover have "un_lookup sample_unstable 6 = Some (entry_at 6 1)"
    by (simp add: un_lookup_def un_next_def sample_unstable_def)
  ultimately show ?thesis by (simp add: l truncated_with_def)
qed

text \<open>A batch that starts strictly inside the tail is lost: when the truncation is defined
  at all (its range is taken at \<open>offset_\<close> of the vector instead of at its beginning, so it
  needs \<open>a\<close> to be at most the number of entries), no position from \<open>a\<close> on is mapped
  afterwards, and what is kept are the entries of positions \<open>2 * offset_\<close> onwards.\<close>

theorem unstable_append_inside_loses_batch:
  assumes "un_wf u" and "contiguous a es" and "es \<noteq> []"
    and "unat (un_offset u) < a" and "a < un_next u"
  shows "un_truncate_and_append es u =
      (if a \<le> length (un_ents u)
       then Some (u\<lparr>un_ents := take (a - unat (un_offset u)) (drop (unat (un_offset u)) (un_ents u))\<rparr>)
       else None)
    \<and> post (un_truncate_and_append es u) (\<lambda>u'. un_next u' = a \<and> (\<forall>i. a \<le> i \<longrightarrow> un_lookup u' i = None))"
proof -
  have a: "unat (le_index (hd es)) = a" using assms(2,3) by (rule contiguous_hd)
  have next_ok: "un_next u \<le> 9223372036854775808" using assms(1) by (simp add: un_wf_def)
  show ?thesis
    using un_append_inside [OF next_ok assms(3)] assms(4,5) a
    by (auto simp: un_next_def un_lookup_def)
qed

theorem unstable_append_inside_loses_batch_witness:
  "un_truncate_and_append [entry_at 1 2] (sample_unstable\<lparr>un_offset := 0, un_ents := [entry_at 0 0, entry_at 1 1, entry_at 2 1]\<rparr>)
    = Some (sample_unstable\<lparr>un_offset := 0, un_ents := [entry_at 0 0]\<rparr>)"
  using unstable_append_inside_loses_batch
    [of "sample_unstable\<lparr>un_offset := 0, un_ents := [entry_at 0 0, entry_at 1 1, entry_at 2 1]\<rparr>" 1 "[entry_at 1 2]"]
  by (simp add: un_wf_def un_next_def)

text \<open>\<open>Slice\<close> of a range inside the tail is defined and puts exactly the entries of the
  positions \<open>lo, \<dots>, hi - 1\<close> in front of the caller's vector.\<close>

theorem unstable_slice_exact:
  assumes "un_wf u" and "unat (un_offset u) \<le> unat lo" "unat lo \<le> unat hi" "unat hi \<le> un_next u"
  shows "\<exists>es. un_slice lo hi out u = Some (es @ out) \<and> length es = unat hi - unat lo
    \<and> map Some es = map (un_lookup u) [unat lo..<unat hi]"
proof -
  obtain es where "un_slice lo hi out u = Some (es @ out)"
    and es: "map Some es = map (un_lookup u) [unat lo..<unat hi]"
    using unstable_slice [OF assms] by blast
  moreover from arg_cong [OF es, of length] have "length es = unat hi - unat lo" by simp
  ultimately show ?thesis by blast
qed

theorem unstable_slice_exact_witness:
  "\<exists>es. un_slice 6 8 [] sample_unstable = Some es \<and> length es = 2 \<and> es ! 0 = entry_at 6 1"
proof -
  have "un_lookup sample_unstable 6 = Some (entry_at 6 1)"
    by (simp add: un_lookup_def un_next_def sample_unstable_def)
  then show ?thesis
    using unstable_slice_exact [OF sample_unstable_wf, of 6 8 "[]"]
    by (auto simp: un_next_def sample_unstable_def upt_conv_Cons)
qed

end
