(* ===== verification/Raft_Log.thy ===== *)
theory Raft_Log
  imports Memory_Storage Log_Unstable
begin

text \<open>
  \<^verbatim>\<open>src/src/anraft/raft_log.h\<close> and \<^verbatim>\<open>raft_log.cpp\<close>: the log of a raft node, made of a
  storage and an unstable tail. A \<open>Storage*\<close> that is null is \<^term>\<open>None\<close>; dereferencing it is
  undefined. \<open>LastTerm\<close>, the case of \<open>Term\<close> inside the log, and two of the three \<open>Append\<close>
  functions have no return statement in the source; their values come from the supply. What
  the model calls \<open>rl_append_one\<close> and \<open>rl_append_pb\<close> are the two empty bodies.
\<close>

record raft_log =
  rl_storage :: "storage option"
  rl_unstable :: unstable
  rl_committed :: u64
  rl_applied :: u64

text \<open>The static instance of \<open>GetRaftLog\<close>: zero-initialised, no storage yet.\<close>

definition static_raft_log :: raft_log where
  "static_raft_log = \<lparr>rl_storage = None, rl_unstable = new_unstable, rl_committed = 0, rl_applied = 0\<rparr>"

definition rl_new_log :: "storage option \<Rightarrow> raft_log \<Rightarrow> (bool rv \<times> raft_log) option" where
  "rl_new_log storage l =
     (case storage of
        None \<Rightarrow> Some (Returns False, l)
      | Some so \<Rightarrow>
          let l = l\<lparr>rl_storage := Some so\<rparr> in
          do {
            (first_index, fi_err) \<leftarrow> so_first_index so;
            if fi_err \<noteq> ErrNone then Some (Returns False, l)
            else do {
              (last_index, li_err) \<leftarrow> so_last_index so;
              if li_err \<noteq> ErrNone then Some (Returns False, l)
              else Some (NoReturn, l\<lparr>rl_unstable := un_set_offset (last_index + 1) (rl_unstable l),
                     rl_committed := first_index - 1, rl_applied := first_index - 1\<rparr>)
            }
          })"

section \<open>Queries\<close>

definition rl_last_index :: "raft_log \<Rightarrow> u64 option" where
  "rl_last_index l =
     (let mli_ret = un_maybe_last_index (rl_unstable l) in
      if snd mli_ret then Some (fst mli_ret)
      else do {
        so \<leftarrow> rl_storage l;
        (i, _) \<leftarrow> so_last_index so;
        Some i
      })"

definition rl_first_index :: "raft_log \<Rightarrow> u64 option" where
  "rl_first_index l =
     (let mfi_ret = un_maybe_first_index (rl_unstable l) in
      if snd mfi_ret then Some (fst mfi_ret)
      else do {
        so \<leftarrow> rl_storage l;
        (i, _) \<leftarrow> so_first_index so;
        Some i
      })"

definition rl_last_term :: "env \<Rightarrow> raft_log \<Rightarrow> u64" where
  "rl_last_term g l = indet_u64 g"

definition rl_is_up_to_date :: "env \<Rightarrow> raft_log \<Rightarrow> u64 \<Rightarrow> u64 \<Rightarrow> bool option" where
  "rl_is_up_to_date g l last_index trm =
     (if rl_last_term (sub_call 0 g) l < trm then Some True
      else if trm = rl_last_term (sub_call 1 g) l
      then do { li \<leftarrow> rl_last_index l; Some (li < last_index) }
      else Some False)"

definition rl_term :: "env \<Rightarrow> raft_log \<Rightarrow> u64 \<Rightarrow> (raft_error \<times> u64) option" where
  "rl_term g l index = do {
     fi \<leftarrow> rl_first_index l;
     let dummy_index = fi - 1;
     if index < dummy_index then Some (ErrNone, 0)
     else do {
       li \<leftarrow> rl_last_index l;
       if li < index then Some (ErrNone, 0)
       else Some (indet_error (sub_call 0 g), indet_u64 (sub_call 1 g))
     }
   }"

definition rl_must_check_out_of_bounds :: "raft_log \<Rightarrow> u64 \<Rightarrow> u64 \<Rightarrow> raft_error option" where
  "rl_must_check_out_of_bounds l lo hi =
     (if hi < lo then Some ErrParam
      else do {
        fi \<leftarrow> rl_first_index l;
        if lo < fi then Some ErrCompacted
        else do {
          li \<leftarrow> rl_last_index l;
          let len = li + 1 - fi;
          if lo < fi \<or> fi + len < hi then Some ErrCompacted else Some ErrNone
        }
      })"

definition rl_slice :: "raft_log \<Rightarrow> u64 \<Rightarrow> u64 \<Rightarrow> u64 \<Rightarrow> log_entry list \<Rightarrow> (raft_error \<times> log_entry list) option" where
  "rl_slice l lo hi max_size entries = do {
     ret \<leftarrow> rl_must_check_out_of_bounds l lo hi;
     if ret \<noteq> ErrNone then Some (ret, entries)
     else if lo = hi then Some (ErrNone, entries)
     else do {
       let offset = un_offset (rl_unstable l);
       (err, entries) \<leftarrow>
         (if lo < offset then do {
            so \<leftarrow> rl_storage l;
            (ents, err) \<leftarrow> so_entries so lo (min hi offset) max_size;
            Some (err, if err \<noteq> ErrNone then entries else entries @ ents)
          }
          else Some (ErrNone, entries));
       if err \<noteq> ErrNone then Some (err, entries)
       else if offset < hi then do {
         unstable_entries \<leftarrow> un_slice (max lo offset) hi [] (rl_unstable l);
         Some (ErrNone, entries @ unstable_entries)
       }
       else Some (ErrNone, entries)
     }
   }"

definition rl_entries :: "raft_log \<Rightarrow> u64 \<Rightarrow> u64 \<Rightarrow> log_entry list \<Rightarrow> (raft_error \<times> log_entry list) option" where
  "rl_entries l index max_size entries = do {
     li \<leftarrow> rl_last_index l;
     if li < index then Some (ErrNone, entries)
     else do { li \<leftarrow> rl_last_index l; rl_slice l index (li + 1) max_size entries }
   }"

definition rl_all_entries :: "raft_log \<Rightarrow> log_entry list \<Rightarrow> (raft_error \<times> log_entry list) option" where
  "rl_all_entries l entries = do {
     fi \<leftarrow> rl_first_index l;
     rl_entries l fi 10000 entries
   }"

definition rl_zero_term_on_err_compacted :: "raft_error \<times> u64 \<Rightarrow> u64" where
  "rl_zero_term_on_err_compacted result =
     (if fst result = ErrNone then snd result else if fst result = ErrCompacted then 0 else 0)"

definition rl_match_term :: "env \<Rightarrow> raft_log \<Rightarrow> u64 \<Rightarrow> u64 \<Rightarrow> bool option" where
  "rl_match_term g l index trm = do {
     term_result \<leftarrow> rl_term g l index;
     if fst term_result \<noteq> ErrNone then Some False else Some (snd term_result = trm)
   }"

primrec rl_find_conflict :: "env \<Rightarrow> raft_log \<Rightarrow> log_entry list \<Rightarrow> u64 option" where
  "rl_find_conflict g l [] = Some 0"
| "rl_find_conflict g l (x # xs) = do {
     matched \<leftarrow> rl_match_term (sub_call 0 g) l (le_index x) (le_term x);
     if \<not> matched then do { li \<leftarrow> rl_last_index l; Some (le_index x) }
     else rl_find_conflict (sub_call 1 g) l xs
   }"

section \<open>Updates\<close>

definition rl_append_vec :: "log_entry list \<Rightarrow> raft_log \<Rightarrow> (u64 \<times> raft_log) option" where
  "rl_append_vec entries l =
     (if entries = [] then do { li \<leftarrow> rl_last_index l; Some (li, l) }
      else do {
        u \<leftarrow> un_truncate_and_append entries (rl_unstable l);
        let l = l\<lparr>rl_unstable := u\<rparr>;
        li \<leftarrow> rl_last_index l;
        Some (li, l)
      })"

text \<open>Two of the three overloads of \<open>Append\<close> have an empty body and return nothing (\<open>NoReturn\<close>).\<close>

definition rl_append_one :: "log_entry \<Rightarrow> raft_log \<Rightarrow> u64 rv \<times> raft_log" where
  "rl_append_one e l = (NoReturn, l)"

definition rl_append_pb :: "log_entry list \<Rightarrow> raft_log \<Rightarrow> u64 rv \<times> raft_log" where
  "rl_append_pb entries l = (NoReturn, l)"

definition rl_set_committed :: "u64 \<Rightarrow> raft_log \<Rightarrow> raft_log" where
  "rl_set_committed c l = l\<lparr>rl_committed := c\<rparr>"

definition rl_commit_to :: "u64 \<Rightarrow> raft_log \<Rightarrow> raft_log option" where
  "rl_commit_to tocommit l =
     (if rl_committed l < tocommit
      then do { li \<leftarrow> rl_last_index l; Some (l\<lparr>rl_committed := tocommit\<rparr>) }
      else Some l)"

definition rl_maybe_commit :: "env \<Rightarrow> u64 \<Rightarrow> u64 \<Rightarrow> raft_log \<Rightarrow> (bool \<times> raft_log) option" where
  "rl_maybe_commit g index trm l =
     (if rl_committed l < index then do {
        t \<leftarrow> rl_term g l index;
        if rl_zero_term_on_err_compacted t = trm
        then do { l \<leftarrow> rl_commit_to index l; Some (True, l) }
        else Some (False, l)
      }
      else Some (False, l))"

definition rl_maybe_append :: "env \<Rightarrow> u64 \<Rightarrow> u64 \<Rightarrow> u64 \<Rightarrow> log_entry list \<Rightarrow> raft_log \<Rightarrow> ((u64 \<times> bool) \<times> raft_log) option" where
  "rl_maybe_append g index trm committed ents l = do {
     matched \<leftarrow> rl_match_term (sub_call 0 g) l index trm;
     if matched then do {
       let lastnewi = index + vec_size ents;
       ci \<leftarrow> rl_find_conflict (sub_call 1 g) l ents;
       l \<leftarrow> rl_commit_to (min committed lastnewi) l;
       Some ((committed, True), l)
     }
     else Some ((0, False), l)
   }"

section \<open>What the updates leave alone\<close>

text \<open>
  \<open>rl_le\<close>: the contents of the log are the same and the commit index has not gone down.
  Every update that the raft state machine uses moves along this order.
\<close>

definition rl_le :: "raft_log \<Rightarrow> raft_log \<Rightarrow> bool" where
  "rl_le l l' \<longleftrightarrow> rl_storage l' = rl_storage l \<and> rl_unstable l' = rl_unstable l
     \<and> rl_applied l' = rl_applied l \<and> rl_committed l \<le> rl_committed l'"

named_theorems rl_post

lemma rl_le_refl [simp, intro]: "rl_le l l"
  by (simp add: rl_le_def)

lemma rl_le_trans: "rl_le l m \<Longrightarrow> rl_le m n \<Longrightarrow> rl_le l n"
  by (auto simp: rl_le_def)

lemma rl_commit_to_cases:
  "rl_commit_to c l = Some l' \<Longrightarrow> l' = l\<lparr>rl_committed := max (rl_committed l) c\<rparr>"
  by (auto simp: rl_commit_to_def bind_eq_Some_conv max_def split: if_splits)

lemma rl_commit_to_le [rl_post]: "post (rl_commit_to c l) (rl_le l)"
  by (rule postI) (auto dest!: rl_commit_to_cases simp: rl_le_def)

lemma rl_maybe_commit_cases:
  "rl_maybe_commit g i t l = Some (b, l') \<Longrightarrow>
    (if b then rl_committed l < i \<and> l' = l\<lparr>rl_committed := i\<rparr> else l' = l)"
  by (auto simp: rl_maybe_commit_def bind_eq_Some_conv dest!: rl_commit_to_cases
      split: if_splits)

lemma rl_maybe_commit_le [rl_post]: "post (rl_maybe_commit g i t l) (\<lambda>r. rl_le l (snd r))"
  by (rule postI) (auto dest!: rl_maybe_commit_cases simp: rl_le_def split: if_splits)

lemma rl_maybe_append_cases:
  "rl_maybe_append g i t c ents l = Some (r, l') \<Longrightarrow>
    (if snd r then fst r = c \<and> l' = l\<lparr>rl_committed := max (rl_committed l) (min c (i + vec_size ents))\<rparr>
     else fst r = 0 \<and> l' = l)"
  by (auto simp: rl_maybe_append_def bind_eq_Some_conv dest!: rl_commit_to_cases split: if_splits)

lemma rl_maybe_append_le [rl_post]: "post (rl_maybe_append g i t c ents l) (\<lambda>r. rl_le l (snd r))"
  by (rule postI) (auto dest!: rl_maybe_append_cases simp: rl_le_def split: if_splits)

section \<open>Logs over a storage that keeps its contract\<close>

text \<open>
  \<open>log_last v u\<close> is the last position of a log with storage view \<open>v\<close> and tail \<open>u\<close>;
  \<open>log_ok\<close> says that the tail continues the storage without a gap.
\<close>

definition log_last :: "log_view \<Rightarrow> unstable \<Rightarrow> nat" where
  "log_last v u = (if un_ents u = [] then view_last v else un_next u - 1)"

definition log_ok :: "log_view \<Rightarrow> unstable \<Rightarrow> bool" where
  "log_ok v u \<longleftrightarrow> un_wf u \<and> lv_base v < unat (un_offset u) \<and> unat (un_offset u) \<le> Suc (view_last v)
     \<and> (un_ents u = [] \<longrightarrow> unat (un_offset u) = Suc (view_last v))"

lemma log_ok_next: "log_ok v u \<Longrightarrow> un_next u = Suc (log_last v u)"
  by (auto simp: log_ok_def log_last_def un_next_def)

lemma log_ok_base: "log_ok v u \<Longrightarrow> lv_base v \<le> log_last v u"
  using log_ok_next [of v u] by (auto simp: log_ok_def un_next_def)

lemma log_ok_bound: "log_ok v u \<Longrightarrow> log_last v u < 9223372036854775808"
  using log_ok_next [of v u] by (auto simp: log_ok_def un_wf_def)

context storage_contract begin

lemma rl_first_index_valid:
  "valid m \<Longrightarrow> rl_storage l = Some (obj m) \<Longrightarrow> rl_first_index l = Some (of_nat (Suc (lv_base (view m))))"
  by (simp add: rl_first_index_def un_maybe_first_index_def first_index)

lemma rl_last_index_valid:
  assumes "valid m" and "rl_storage l = Some (obj m)" and "log_ok (view m) (rl_unstable l)"
  shows "rl_last_index l = Some (of_nat (log_last (view m) (rl_unstable l)))"
proof (cases "un_ents (rl_unstable l) = []")
  case True
  with assms show ?thesis
    by (simp add: rl_last_index_def un_maybe_last_index_def last_index log_last_def)
next
  case False
  with assms show ?thesis
    by (simp add: rl_last_index_def log_last_def un_maybe_last_index_wf log_ok_def un_wf_def)
qed

lemma log_last_unat:
  "log_ok (view m) (rl_unstable l) \<Longrightarrow>
    unat (of_nat (log_last (view m) (rl_unstable l)) :: u64) = log_last (view m) (rl_unstable l)"
  using log_ok_bound [of "view m" "rl_unstable l"] by (intro unat_of_nat_u64) simp

lemma log_next_unat:
  "log_ok (view m) (rl_unstable l) \<Longrightarrow>
    unat (of_nat (log_last (view m) (rl_unstable l)) + 1 :: u64) = Suc (log_last (view m) (rl_unstable l))"
  using log_ok_bound [of "view m" "rl_unstable l"] log_last_unat [of m l]
  by (subst unat_add_u64) auto

lemma bounds_check_valid:
  assumes "valid m" and "rl_storage l = Some (obj m)" and "log_ok (view m) (rl_unstable l)"
  shows "rl_must_check_out_of_bounds l lo hi = Some
    (if unat hi < unat lo then ErrParam
     else if unat lo \<le> lv_base (view m) \<or> Suc (log_last (view m) (rl_unstable l)) < unat hi
     then ErrCompacted else ErrNone)"
proof -
  note fi = rl_first_index_valid [OF assms(1,2)] and li = rl_last_index_valid [OF assms]
  have "unat (of_nat (log_last (view m) (rl_unstable l)) + 1 - of_nat (Suc (lv_base (view m))) :: u64)
      = log_last (view m) (rl_unstable l) - lv_base (view m)"
    using log_next_unat [OF assms(3)] first_index_unat [OF assms(1)] log_ok_base [OF assms(3)]
    by (subst unat_sub_u64) (auto simp: u64_order)
  then have "unat (of_nat (Suc (lv_base (view m))) +
        (of_nat (log_last (view m) (rl_unstable l)) + 1 - of_nat (Suc (lv_base (view m)))) :: u64)
      = Suc (log_last (view m) (rl_unstable l))"
    using log_next_unat [OF assms(3)] by (simp add: add.commute)
  with fi li first_index_unat [OF assms(1)] show ?thesis
    by (simp add: rl_must_check_out_of_bounds_def u64_order)
qed

lemma term_outside_log:
  assumes "valid m" and "rl_storage l = Some (obj m)" and "log_ok (view m) (rl_unstable l)"
    and "unat i < lv_base (view m) \<or> log_last (view m) (rl_unstable l) < unat i"
  shows "rl_term g l i = Some (ErrNone, 0)"
proof -
  have "unat (of_nat (Suc (lv_base (view m))) - 1 :: u64) = lv_base (view m)"
    using first_index_unat [OF assms(1)] by (subst unat_sub_u64) (auto simp: u64_order)
  then show ?thesis
    using assms(4) log_last_unat [OF assms(3)]
      rl_first_index_valid [OF assms(1,2)] rl_last_index_valid [OF assms(1-3)]
    by (auto simp: rl_term_def u64_order)
qed

lemma maybe_commit_in_log:
  assumes "valid m" and "rl_storage l = Some (obj m)" and "log_ok (view m) (rl_unstable l)"
    and "t \<noteq> 0" and "rl_maybe_commit g i t l = Some (True, l')"
  shows "unat i \<le> log_last (view m) (rl_unstable l)"
proof (rule ccontr)
  assume "\<not> ?thesis"
  then have "rl_term g l i = Some (ErrNone, 0)"
    using assms(1-3) by (intro term_outside_log) auto
  with assms(4,5) show False
    by (simp add: rl_maybe_commit_def rl_zero_term_on_err_compacted_def split: if_splits)
qed

lemma match_term_in_log:
  assumes "valid m" and "rl_storage l = Some (obj m)" and "log_ok (view m) (rl_unstable l)"
    and "t \<noteq> 0" and "rl_match_term g l i t = Some True"
  shows "lv_base (view m) \<le> unat i \<and> unat i \<le> log_last (view m) (rl_unstable l)"
proof (rule ccontr)
  assume "\<not> ?thesis"
  then have "rl_term g l i = Some (ErrNone, 0)"
    using assms(1-3) by (intro term_outside_log) auto
  with assms(4,5) show False by (simp add: rl_match_term_def)
qed

lemma slice_in_tail:
  assumes "valid m" and "rl_storage l = Some (obj m)" and "log_ok (view m) (rl_unstable l)"
    and "unat (un_offset (rl_unstable l)) \<le> unat lo" and "unat lo \<le> unat hi"
    and "unat hi \<le> Suc (log_last (view m) (rl_unstable l))"
  shows "\<exists>es. rl_slice l lo hi mx out = Some (ErrNone, out @ es)
    \<and> map Some es = map (un_lookup (rl_unstable l)) [unat lo..<unat hi]"
proof -
  let ?u = "rl_unstable l"
  from assms(3) have u: "un_wf ?u" "lv_base (view m) < unat (un_offset ?u)"
    by (auto simp: log_ok_def)
  have bounds: "rl_must_check_out_of_bounds l lo hi = Some ErrNone"
    using assms u(2) by (simp add: bounds_check_valid)
  show ?thesis
  proof (cases "lo = hi")
    case True
    with bounds show ?thesis by (simp add: rl_slice_def)
  next
    case False
    then have "unat lo \<noteq> unat hi" by (metis word_unat_eq_iff)
    with assms(5) have lt: "unat lo < unat hi" by linarith
    have "unat hi \<le> un_next ?u" using assms(6) log_ok_next [OF assms(3)] by simp
    from unstable_slice [OF u(1) assms(4,5) this, of "[]"] obtain es
      where "un_slice lo hi [] ?u = Some es" "map Some es = map (un_lookup ?u) [unat lo..<unat hi]"
      by auto
    moreover have "max lo (un_offset ?u) = lo"
      using assms(4) by (intro max_absorb1) (simp add: u64_order)
    ultimately show ?thesis
      using bounds False assms(4) lt by (simp add: rl_slice_def u64_order not_less)
  qed
qed

end

section \<open>Which log is more up to date\<close>

text \<open>
  Raft compares logs by the term of the last entry first and by its index second. As a
  linear order on the pair, so that the library's order lemmas apply.
\<close>

datatype log_pos = LogPos (lp_term: u64) (lp_index: u64)

instantiation log_pos :: linorder
begin

definition less_eq_log_pos :: "log_pos \<Rightarrow> log_pos \<Rightarrow> bool" where
  "less_eq_log_pos a b \<longleftrightarrow> lp_term a < lp_term b \<or> lp_term a = lp_term b \<and> lp_index a \<le> lp_index b"

definition less_log_pos :: "log_pos \<Rightarrow> log_pos \<Rightarrow> bool" where
  "less_log_pos a b \<longleftrightarrow> lp_term a < lp_term b \<or> lp_term a = lp_term b \<and> lp_index a < lp_index b"

instance
  by standard (auto simp: less_eq_log_pos_def less_log_pos_def intro: log_pos.expand)

end

lemma rl_is_up_to_date_order:
  assumes "rl_last_term (sub_call 0 g) l = lt" and "rl_last_term (sub_call 1 g) l = lt"
    and "rl_last_index l = Some li"
  shows "rl_is_up_to_date g l i t = Some (LogPos lt li < LogPos t i)"
  using assms by (auto simp: rl_is_up_to_date_def less_log_pos_def)

section \<open>Conflicts\<close>

text \<open>The supply of the \<open>k\<close>-th iteration of the loop of \<open>FindConflict\<close>.\<close>

primrec iteration :: "nat \<Rightarrow> env \<Rightarrow> env" where
  "iteration 0 g = sub_call 0 g"
| "iteration (Suc k) g = iteration k (sub_call 1 g)"

lemma rl_find_conflict_cases:
  assumes "rl_find_conflict g l es = Some c"
  shows "(c = 0 \<and> (\<forall>k<length es. rl_match_term (iteration k g) l (le_index (es ! k)) (le_term (es ! k)) = Some True))
    \<or> (\<exists>k<length es. c = le_index (es ! k)
        \<and> rl_match_term (iteration k g) l (le_index (es ! k)) (le_term (es ! k)) = Some False
        \<and> (\<forall>j<k. rl_match_term (iteration j g) l (le_index (es ! j)) (le_term (es ! j)) = Some True))"
  using assms
proof (induction es arbitrary: g)
  case Nil
  then show ?case by simp
next
  case (Cons x xs)
  from Cons.prems obtain b where b: "rl_match_term (sub_call 0 g) l (le_index x) (le_term x) = Some b"
    by (auto simp: bind_eq_Some_conv)
  show ?case
  proof (cases b)
    case True
    with b Cons.prems have "rl_find_conflict (sub_call 1 g) l xs = Some c" by simp
    from Cons.IH [OF this] b True show ?thesis
      by (simp add: Ex_less_Suc2 All_less_Suc2 del: One_nat_def)
  next
    case False
    with b Cons.prems have "c = le_index x" by (auto simp: bind_eq_Some_conv)
    with b False show ?thesis by (intro disjI2 exI [of _ 0]) simp
  qed
qed

section \<open>Properties\<close>

definition sample_log :: raft_log where
  "sample_log = \<lparr>rl_storage = Some (ms_storage sample_storage),
     rl_unstable = new_unstable\<lparr>un_offset := 4, un_ents := [entry_at 4 2, entry_at 5 2]\<rparr>,
     rl_committed = 3, rl_applied = 3\<rparr>"

lemma sample_storage_wf: "ms_wf sample_storage"
  by (simp add: ms_wf_def ms_base_def ms_last_def sample_storage_def)

lemma sample_storage_view [simp]: "ms_base sample_storage = 2" "ms_last sample_storage = 3"
  by (simp_all add: ms_base_def ms_last_def sample_storage_def)

lemma sample_log_storage [simp]: "rl_storage sample_log = Some (ms_storage sample_storage)"
  by (simp add: sample_log_def)

lemma sample_log_ok: "log_ok (ms_view sample_storage) (rl_unstable sample_log)"
  by (simp add: log_ok_def un_wf_def un_next_def sample_log_def)

lemma sample_log_last [simp]: "log_last (ms_view sample_storage) (rl_unstable sample_log) = 5"
  by (simp add: log_last_def un_next_def sample_log_def)

lemma sample_log_last_index: "rl_last_index sample_log = Some 5"
  using ms.rl_last_index_valid [OF sample_storage_wf sample_log_storage sample_log_ok] by simp

lemma sample_log_first_index: "rl_first_index sample_log = Some 3"
  using ms.rl_first_index_valid [OF sample_storage_wf sample_log_storage] by simp

text \<open>C37: \<open>NewLog\<close> over a well-formed memory storage sets the tail's offset behind the last
  stored entry and both pointers to the last compacted index, and the log then ends where the
  storage ends. The function has no return value on this path.\<close>

theorem new_log_recovers:
  assumes "ms_wf m" and "un_ents (rl_unstable l) = []"
  shows "\<exists>l'. rl_new_log (Some (ms_storage m)) l = Some (NoReturn, l')
    \<and> unat (rl_committed l') = ms_base m \<and> rl_applied l' = rl_committed l'
    \<and> log_ok (ms_view m) (rl_unstable l')
    \<and> rl_last_index l' = Some (of_nat (ms_last m))"
proof -
  let ?f = "of_nat (Suc (ms_base m)) :: u64" and ?e = "of_nat (ms_last m) :: u64"
  let ?l = "l\<lparr>rl_storage := Some (ms_storage m),
    rl_unstable := un_set_offset (?e + 1) (rl_unstable l), rl_committed := ?f - 1, rl_applied := ?f - 1\<rparr>"
  have e: "unat ?e = ms_last m" and b: "ms_base m \<le> ms_last m" "ms_last m < 9223372036854775808"
    using ms.last_index_unat [OF assms(1)] ms.base_le_last [OF assms(1)] ms.last_bound [OF assms(1)]
    by simp_all
  have next_pos: "unat (?e + 1) = Suc (ms_last m)"
    using e b by (subst unat_add_u64) auto
  have "unat (?f - 1) = ms_base m"
    using ms.first_index_unat [OF assms(1)] by (subst unat_sub_u64) (auto simp: u64_order)
  moreover have run: "rl_new_log (Some (ms_storage m)) l = Some (NoReturn, ?l)"
    using ms.first_index [OF assms(1)] ms.last_index [OF assms(1)] by (simp add: rl_new_log_def)
  moreover have ok: "log_ok (ms_view m) (rl_unstable ?l)"
    using assms(2) next_pos b by (simp add: log_ok_def un_wf_def un_next_def un_set_offset_def)
  moreover have "rl_last_index ?l = Some ?e"
    using ms.rl_last_index_valid [OF assms(1), of ?l] ok assms(2)
    by (simp add: log_last_def un_set_offset_def)
  ultimately show ?thesis by (intro exI [of _ ?l]) simp
qed

theorem new_log_recovers_witness:
  "\<exists>l'. rl_new_log (Some (ms_storage sample_storage)) static_raft_log = Some (NoReturn, l')
    \<and> unat (rl_committed l') = 2"
  using new_log_recovers [OF sample_storage_wf, of static_raft_log]
  by (auto simp: static_raft_log_def new_unstable_def)

text \<open>The bounds check is exact: over a well-formed memory storage and a tail without a gap
  it accepts a range exactly when it lies between the first index and one past the last index,
  and tells a reversed range from one that is out of reach.\<close>

theorem bounds_check_exact:
  assumes "ms_wf m" and "rl_storage l = Some (ms_storage m)" and "log_ok (ms_view m) (rl_unstable l)"
  shows "rl_must_check_out_of_bounds l lo hi = Some
    (if unat hi < unat lo then ErrParam
     else if Suc (ms_base m) \<le> unat lo \<and> unat hi \<le> Suc (log_last (ms_view m) (rl_unstable l))
     then ErrNone else ErrCompacted)"
  using ms.bounds_check_valid [OF assms] by (auto simp: not_less_eq_eq)

theorem bounds_check_exact_witness:
  "rl_must_check_out_of_bounds sample_log 3 6 = Some ErrNone
    \<and> rl_must_check_out_of_bounds sample_log 3 7 = Some ErrCompacted"
  using bounds_check_exact [OF sample_storage_wf sample_log_storage sample_log_ok] by simp

text \<open>A slice that lies in the unstable tail is returned completely and in order, behind what
  the caller's vector already holds; no bounds error and no undefined access is possible.\<close>

theorem log_slice_of_tail:
  assumes "ms_wf m" and "rl_storage l = Some (ms_storage m)" and "log_ok (ms_view m) (rl_unstable l)"
    and "unat (un_offset (rl_unstable l)) \<le> unat lo" and "unat lo \<le> unat hi"
    and "unat hi \<le> Suc (log_last (ms_view m) (rl_unstable l))"
  shows "\<exists>es. rl_slice l lo hi mx out = Some (ErrNone, out @ es)
    \<and> map Some es = map (un_lookup (rl_unstable l)) [unat lo..<unat hi]"
  using assms by (rule ms.slice_in_tail)

theorem log_slice_of_tail_witness:
  "\<exists>es. rl_slice sample_log 4 6 0 [] = Some (ErrNone, es) \<and> length es = 2"
proof -
  have "\<exists>es. rl_slice sample_log 4 6 0 [] = Some (ErrNone, [] @ es)
    \<and> map Some es = map (un_lookup (rl_unstable sample_log)) [unat (4::u64)..<unat (6::u64)]"
    by (rule log_slice_of_tail [OF sample_storage_wf sample_log_storage sample_log_ok])
      (simp_all, simp add: sample_log_def)
  then obtain es where es: "rl_slice sample_log 4 6 0 [] = Some (ErrNone, es)"
    and eq: "map Some es = map (un_lookup (rl_unstable sample_log)) [4..<6]" by auto
  from arg_cong [OF eq, of length] have "length es = 2" by simp
  with es show ?thesis by blast
qed

text \<open>\<open>MaybeCommit\<close> with a real term (not 0) can only move the commit index forward, to the
  requested index, and only to a position inside the log, whatever the unwritten part of \<open>Term\<close>
  returns; the entries and the applied index are untouched.\<close>

theorem log_maybe_commit_safe:
  assumes "ms_wf m" and "rl_storage l = Some (ms_storage m)" and "log_ok (ms_view m) (rl_unstable l)"
    and "t \<noteq> 0" and "rl_maybe_commit g i t l = Some (b, l')"
  shows "rl_le l l' \<and> (if b then rl_committed l < i \<and> rl_committed l' = i
      \<and> unat i \<le> log_last (ms_view m) (rl_unstable l) else l' = l)"
  using rl_maybe_commit_cases [OF assms(5)] postD [OF rl_maybe_commit_le assms(5)]
    ms.maybe_commit_in_log [OF assms(1-4)] assms(5)
  by (cases b) auto

theorem log_maybe_commit_safe_witness:
  "rl_maybe_commit (env_const 14) 5 14 sample_log = Some (True, sample_log\<lparr>rl_committed := 5\<rparr>)
    \<and> unat (5::u64) \<le> log_last (ms_view sample_storage) (rl_unstable sample_log)"
proof -
  have run: "rl_maybe_commit (env_const 14) 5 14 sample_log = Some (True, sample_log\<lparr>rl_committed := 5\<rparr>)"
    by (simp add: rl_maybe_commit_def rl_term_def rl_commit_to_def rl_zero_term_on_err_compacted_def
        sample_log_first_index sample_log_last_index indet_error_def raft_errors_def u64_order)
      (simp add: sample_log_def)
  show ?thesis
    using log_maybe_commit_safe [OF sample_storage_wf sample_log_storage sample_log_ok _ run] run
    by simp
qed

text \<open>C38: \<open>MaybeAppend\<close> stores nothing. When it accepts a batch (with a real previous term the
  previous index is then inside the log) it moves the commit index to the smaller of the
  leader's commit index and the index of the last new entry, if that is an advance, although
  none of the new entries is in the log; it returns the leader's commit index. When it rejects,
  nothing changes.\<close>

theorem log_maybe_append_outcome:
  assumes "ms_wf m" and "rl_storage l = Some (ms_storage m)" and "log_ok (ms_view m) (rl_unstable l)"
    and "t \<noteq> 0" and "unat i + length ents < 18446744073709551616"
    and "rl_maybe_append g i t c ents l = Some ((r, ok), l')"
  shows "rl_le l l' \<and>
    (if ok then r = c \<and> unat i \<le> log_last (ms_view m) (rl_unstable l)
        \<and> unat (rl_committed l') = max (unat (rl_committed l)) (min (unat c) (unat i + length ents))
     else r = 0 \<and> l' = l)"
proof -
  note cs = rl_maybe_append_cases [OF assms(6)]
  have "unat (vec_size ents) = length ents" using assms(5) by (intro unat_vec_size) simp
  then have sum: "unat (i + vec_size ents) = unat i + length ents"
    using assms(5) by (subst unat_add_u64) auto
  have "unat i \<le> log_last (ms_view m) (rl_unstable l)" if ok
  proof -
    from that assms(6) have "rl_match_term (sub_call 0 g) l i t = Some True"
      by (auto simp: rl_maybe_append_def bind_eq_Some_conv split: if_splits)
    then show ?thesis using ms.match_term_in_log [OF assms(1-4)] by blast
  qed
  with cs sum postD [OF rl_maybe_append_le assms(6)] show ?thesis
    by (auto simp: max_def min_def u64_order)
qed

text \<open>The witness is a follower whose log ends at 5 and whose commit index moves to 6.\<close>

theorem log_maybe_append_outcome_witness:
  "rl_maybe_append (env_const 14) 5 14 6 [entry_at 6 14] sample_log
      = Some ((6, True), sample_log\<lparr>rl_committed := 6\<rparr>)
    \<and> log_last (ms_view sample_storage) (rl_unstable sample_log) < unat (6::u64)"
proof -
  have run: "rl_maybe_append (env_const 14) 5 14 6 [entry_at 6 14] sample_log
      = Some ((6, True), sample_log\<lparr>rl_committed := 6\<rparr>)"
    by (simp add: rl_maybe_append_def rl_match_term_def rl_term_def rl_commit_to_def vec_size_def
        sample_log_first_index sample_log_last_index indet_error_def raft_errors_def u64_order)
      (simp add: sample_log_def)
  show ?thesis
    using log_maybe_append_outcome [OF sample_storage_wf sample_log_storage sample_log_ok _ _ run] run
    by simp
qed

text \<open>\<open>FindConflict\<close> on a contiguous batch with real terms that reaches past the end of the log
  always reports a conflict, and reports it no later than the first new position, so the
  entries before the reported index are all inside the log.\<close>

theorem find_conflict_new_entries:
  assumes "ms_wf m" and "rl_storage l = Some (ms_storage m)" and "log_ok (ms_view m) (rl_unstable l)"
    and "contiguous a es" and "\<forall>e\<in>set es. le_term e \<noteq> 0" and "es \<noteq> []"
    and "log_last (ms_view m) (rl_unstable l) < a + length es - 1"
    and "rl_find_conflict g l es = Some c"
  shows "a \<le> unat c \<and> unat c \<le> max a (Suc (log_last (ms_view m) (rl_unstable l)))"
proof -
  let ?L = "log_last (ms_view m) (rl_unstable l)"
  let ?ok = "\<lambda>k. rl_match_term (iteration k g) l (le_index (es ! k)) (le_term (es ! k)) = Some True"
  have inside: "a + k \<le> ?L" if "k < length es" "?ok k" for k
  proof -
    have "le_term (es ! k) \<noteq> 0" using assms(5) that(1) by simp
    from ms.match_term_in_log [OF assms(1-3) this that(2)] show ?thesis
      using contiguous_nth [OF assms(4) that(1)] by simp
  qed
  have "\<not> (\<forall>k<length es. ?ok k)"
  proof
    assume all: "\<forall>k<length es. ?ok k"
    have "0 < length es" using assms(6) by simp
    with all inside [of "length es - 1"] assms(7) show False by simp
  qed
  with rl_find_conflict_cases [OF assms(8)] obtain k
    where k: "k < length es" "c = le_index (es ! k)" "\<forall>j<k. ?ok j" by blast
  from k(1,2) have c: "unat c = a + k" using contiguous_nth [OF assms(4)] by simp
  show ?thesis
  proof (cases k)
    case 0
    with c show ?thesis by simp
  next
    case (Suc j)
    with inside [of j] k have "a + j \<le> ?L" by simp
    with c Suc show ?thesis by simp
  qed
qed

theorem find_conflict_new_entries_witness:
  "rl_find_conflict (env_const 14) sample_log [entry_at 5 14, entry_at 6 14] = Some 6 \<and> unat (6::u64) \<le> 6"
proof -
  have run: "rl_find_conflict (env_const 14) sample_log [entry_at 5 14, entry_at 6 14] = Some 6"
    by (simp add: rl_match_term_def rl_term_def
        sample_log_first_index sample_log_last_index indet_error_def raft_errors_def u64_order)
  show ?thesis
    using find_conflict_new_entries [OF sample_storage_wf sample_log_storage sample_log_ok _ _ _ _ run, of 5] run
    by simp
qed

text \<open>\<open>IsUpToDate\<close> is the strict order on (last term, last index): a candidate whose log ends
  exactly where the local log ends is turned down, against the comment above the function,
  which calls such a log up to date.\<close>

theorem is_up_to_date_strict:
  assumes "rl_last_term (sub_call 0 g) l = lt" and "rl_last_term (sub_call 1 g) l = lt"
    and "rl_last_index l = Some li"
  shows "rl_is_up_to_date g l i t = Some (LogPos lt li < LogPos t i)
    \<and> rl_is_up_to_date g l li lt = Some False"
  using rl_is_up_to_date_order [OF assms] by simp

theorem is_up_to_date_strict_witness:
  "rl_is_up_to_date (env_const 2) sample_log 5 2 = Some False
    \<and> rl_is_up_to_date (env_const 2) sample_log 6 2 = Some (LogPos 2 5 < LogPos 2 6)"
  using is_up_to_date_strict [of "env_const 2" sample_log 2 5 6 2]
  by (simp add: rl_last_term_def sample_log_last_index)

end
