(* ===== verification/Raft_Config.thy ===== *)
theory Raft_Config
  imports Memory_Storage
begin

text \<open>
  \<^verbatim>\<open>src/src/anraft/config.h\<close> and \<^verbatim>\<open>read_only.cpp\<close>: the parameters that a raft object is to be
  started with, and the context of the last pending read request, which no code provides.
\<close>

record config =
  cf_id :: u64
  cf_peers :: "u64 list"
  cf_learners :: "u64 list"
  cf_election_tick :: int
  cf_heartbeat_tick :: int
  cf_storage :: memory_storage
  cf_applied :: u64
  cf_max_size_per_msg :: u64
  cf_max_inflight_msgs :: int

text \<open>
  \<open>storage\<close> is what \<open>NewMemoryStorage\<close> returns. \<open>applied_\<close> is not set by the constructor;
  \<open>max_inflight_msgs\<close> is narrowed to \<open>int\<close>.
\<close>

definition new_config :: "env \<Rightarrow> u64 \<Rightarrow> int \<Rightarrow> int \<Rightarrow> u64 \<Rightarrow> u64 \<Rightarrow> memory_storage \<Rightarrow> config" where
  "new_config g i election_tick heartbeat_tick max_size_per_msg max_inflight_msgs storage =
     \<lparr>cf_id = i, cf_peers = [], cf_learners = [], cf_election_tick = election_tick,
      cf_heartbeat_tick = heartbeat_tick, cf_storage = storage, cf_applied = indet_u64 g,
      cf_max_size_per_msg = max_size_per_msg, cf_max_inflight_msgs = sint (ucast max_inflight_msgs :: 32 word)\<rparr>"

text \<open>The default constructor sets the storage only.\<close>

definition default_config :: "env \<Rightarrow> memory_storage \<Rightarrow> config" where
  "default_config g storage =
     \<lparr>cf_id = indet_u64 (sub_call 0 g), cf_peers = [], cf_learners = [],
      cf_election_tick = indet_int (sub_call 1 g), cf_heartbeat_tick = indet_int (sub_call 2 g),
      cf_storage = storage, cf_applied = indet_u64 (sub_call 3 g),
      cf_max_size_per_msg = indet_u64 (sub_call 4 g), cf_max_inflight_msgs = indet_int (sub_call 5 g)\<rparr>"

text \<open>\<open>LastPendingRequestCtx\<close> has no return statement; the string that it returns does not exist.\<close>

definition ro_last_pending_request_ctx :: "bytes rv" where
  "ro_last_pending_request_ctx = NoReturn"

section \<open>The narrowing\<close>

lemma sint_ucast_32: "sint (ucast (n :: u64) :: 32 word) = signed_take_bit 31 (int (unat n))"
  by (simp add: signed_ucast_eq)

text \<open>The configured limit of in-flight messages is the one that was asked for exactly if it is
  below \<open>2^31\<close>.\<close>

theorem config_inflight_exact:
  "cf_max_inflight_msgs (new_config g i et ht ms n st) = int (unat n) \<longleftrightarrow> unat n < 2147483648"
proof -
  have narrow: "signed_take_bit 31 (int k) = int k \<longleftrightarrow> k < 2147483648" for k :: nat
    using order_trans [OF _ of_nat_0_le_iff, of "- (2 ^ 31)" k]
    by (simp add: signed_take_bit_int_eq_self_iff)
  show ?thesis by (simp only: new_config_def config.simps sint_ucast_32 narrow)
qed

end
