(* ===== verification/Progress.thy ===== *)
theory Progress
  imports Raft_Proto
begin

text \<open>
  \<^verbatim>\<open>src/src/anraft/progress.h\<close> and \<^verbatim>\<open>progress.cpp\<close>: what a leader knows of one
  peer. \<open>std::map::operator[]\<close> value-initialises a new \<open>Progress\<close>, so a fresh one is all
  zeros.
\<close>

datatype progress_state_type = ProgressStateProbe | ProgressStateReplicate | ProgressStateSnapshot

record progress =
  pr_match :: u64
  pr_next :: u64
  pr_state :: progress_state_type
  pr_paused :: bool

definition new_progress :: progress where
  "new_progress = \<lparr>pr_match = 0, pr_next = 0, pr_state = ProgressStateProbe, pr_paused = False\<rparr>"

definition pr_is_paused :: "progress \<Rightarrow> bool" where
  "pr_is_paused p =
     (case pr_state p of
        ProgressStateProbe \<Rightarrow> pr_paused p
      | ProgressStateReplicate \<Rightarrow> False
      | ProgressStateSnapshot \<Rightarrow> True)"

definition pr_maybe_update :: "u64 \<Rightarrow> progress \<Rightarrow> bool \<times> progress" where
  "pr_maybe_update n p =
     (let is_update = pr_match p < n;
          p = (if is_update then p\<lparr>pr_match := n, pr_paused := False\<rparr> else p);
          p = (if pr_next p < n + 1 then p\<lparr>pr_next := n + 1\<rparr> else p)
      in (is_update, p))"

section \<open>Order and invariant\<close>

text \<open>Knowledge only grows: the acknowledged index and the next index never go down.\<close>

definition pr_le :: "progress \<Rightarrow> progress \<Rightarrow> bool" where
  "pr_le p q \<longleftrightarrow> pr_match p \<le> pr_match q \<and> pr_next p \<le> pr_next q \<and> pr_state q = pr_state p"

lemma pr_le_refl [simp]: "pr_le p p"
  by (simp add: pr_le_def)

lemma pr_le_trans: "pr_le p q \<Longrightarrow> pr_le q r \<Longrightarrow> pr_le p r"
  by (auto simp: pr_le_def)

lemma pr_maybe_update_le: "pr_le p (snd (pr_maybe_update n p))"
  by (auto simp: pr_le_def pr_maybe_update_def)

lemma pr_maybe_update_sel:
  "fst (pr_maybe_update n p) = (pr_match p < n)"
  "pr_match (snd (pr_maybe_update n p)) = max (pr_match p) n"
  "pr_next (snd (pr_maybe_update n p)) = max (pr_next p) (n + 1)"
  "pr_state (snd (pr_maybe_update n p)) = pr_state p"
  by (auto simp: pr_maybe_update_def max_def)

text \<open>The leader never expects to send what is already acknowledged.\<close>

definition pr_ok :: "progress \<Rightarrow> bool" where
  "pr_ok p \<longleftrightarrow> pr_match p < pr_next p"

section \<open>Properties\<close>

text \<open>\<open>MaybeUpdate\<close> takes the maximum of what was known and what is reported, for both
  indices, says whether the acknowledged index moved, and keeps \<open>match < next\<close> for every report
  but the largest 64-bit value.\<close>

theorem progress_update_monotone:
  assumes "n \<noteq> 18446744073709551615" and "pr_ok p"
  shows "pr_ok (snd (pr_maybe_update n p)) \<and> pr_le p (snd (pr_maybe_update n p))
    \<and> pr_match (snd (pr_maybe_update n p)) = max (pr_match p) n
    \<and> fst (pr_maybe_update n p) = (pr_match p < n)"
proof -
  have "unat n \<noteq> 18446744073709551615" using assms(1) by (metis unat_of_nat_u64 u64_eqI of_nat_numeral)
  then have "unat n < 18446744073709551615" using unat_le_max [of n] by linarith
  then have "unat (n + 1) = unat n + 1" by (subst unat_add_u64) auto
  with assms(2) have "pr_ok (snd (pr_maybe_update n p))"
    by (auto simp: pr_ok_def pr_maybe_update_sel u64_order max_def)
  then show ?thesis using pr_maybe_update_le by (simp add: pr_maybe_update_sel)
qed

theorem progress_update_monotone_witness:
  "pr_ok (snd (pr_maybe_update 7 (new_progress\<lparr>pr_next := 1\<rparr>)))
    \<and> pr_match (snd (pr_maybe_update 7 (new_progress\<lparr>pr_next := 1\<rparr>))) = 7"
  using progress_update_monotone [of 7 "new_progress\<lparr>pr_next := 1\<rparr>"]
  by (simp add: pr_ok_def [of "new_progress\<lparr>pr_next := 1\<rparr>"])
    (simp add: new_progress_def max_def u64_order)

text \<open>For the largest report the successor wraps to 0, so the next index stays behind and
  the invariant breaks.\<close>

theorem progress_update_wraps:
  "\<not> pr_ok (snd (pr_maybe_update 18446744073709551615 p))
    \<and> pr_next (snd (pr_maybe_update 18446744073709551615 p)) = pr_next p"
proof -
  have top: "x \<le> 18446744073709551615" for x :: u64
    using unat_le_max [of x] by (simp add: u64_order)
  have "pr_match (snd (pr_maybe_update 18446744073709551615 p)) = 18446744073709551615"
    using top by (simp add: pr_maybe_update_sel max_absorb2)
  moreover have "pr_next (snd (pr_maybe_update 18446744073709551615 p)) = pr_next p"
  proof -
    have "(18446744073709551615 :: u64) + 1 = 0" by simp
    then show ?thesis by (simp only: pr_maybe_update_sel max_absorb1 word_zero_le)
  qed
  ultimately show ?thesis
    using top [of "pr_next p"] by (simp add: pr_ok_def not_less)
qed

end
