(* ===== verification/Ord_Map.thy ===== *)
theory Ord_Map
  imports Prelude
begin

text \<open>
  \<^verbatim>\<open>std::map\<close>, as the \<open>Raft\<close> class uses it for \<open>prs_\<close>, \<open>learner_prs_\<close> and \<open>votes_\<close>:
  an association list in ascending key order, so that a loop over the list visits the
  entries in the order in which the C++ iterator does. The locale \<open>ordered_map\<close> states
  what the users rely on; the interpretation at the end shows that the list provides it.
\<close>

section \<open>The container\<close>

type_synonym ('k, 'v) omap = "('k \<times> 'v) list"

definition om_find :: "('k, 'v) omap \<Rightarrow> 'k \<Rightarrow> 'v option" where
  "om_find m k = map_of m k"

primrec om_put :: "('k::linorder) \<Rightarrow> 'v \<Rightarrow> ('k, 'v) omap \<Rightarrow> ('k, 'v) omap" where
  "om_put k v [] = [(k, v)]"
| "om_put k v (x # m) =
     (if k < fst x then (k, v) # x # m
      else if k = fst x then (k, v) # m
      else x # om_put k v m)"

text \<open>\<open>m[k]\<close> as an expression: a missing key is inserted with the default value \<open>d\<close>.\<close>

definition om_touch :: "'v \<Rightarrow> ('k::linorder) \<Rightarrow> ('k, 'v) omap \<Rightarrow> ('k, 'v) omap" where
  "om_touch d k m = (if om_find m k = None then om_put k d m else m)"

definition om_erase :: "'k \<Rightarrow> ('k, 'v) omap \<Rightarrow> ('k, 'v) omap" where
  "om_erase k m = filter (\<lambda>x. fst x \<noteq> k) m"

definition om_keys :: "('k, 'v) omap \<Rightarrow> 'k list" where
  "om_keys m = map fst m"

definition om_ok :: "('k::linorder, 'v) omap \<Rightarrow> bool" where
  "om_ok m \<longleftrightarrow> sorted_wrt (<) (om_keys m)"

section \<open>The contract\<close>

locale ordered_map =
  fixes find :: "'m \<Rightarrow> 'k::linorder \<Rightarrow> 'v option"
    and put :: "'k \<Rightarrow> 'v \<Rightarrow> 'm \<Rightarrow> 'm"
    and keys :: "'m \<Rightarrow> 'k list"
    and ok :: "'m \<Rightarrow> bool"
  assumes find_put: "find (put k v m) k' = (if k' = k then Some v else find m k')"
    and ok_put: "ok m \<Longrightarrow> ok (put k v m)"
    and keys_find: "k \<in> set (keys m) \<longleftrightarrow> find m k \<noteq> None"
    and keys_sorted: "ok m \<Longrightarrow> sorted_wrt (<) (keys m)"
begin

lemma set_keys_put: "set (keys (put k v m)) = insert k (set (keys m))"
  by (auto simp: keys_find find_put split: if_splits)

lemma keys_distinct: "ok m \<Longrightarrow> distinct (keys m)"
  using keys_sorted [of m] by (simp add: strict_sorted_iff)

lemma keys_put_old:
  assumes "ok m" and "find m k \<noteq> None"
  shows "keys (put k v m) = keys m"
proof -
  from assms(2) have "set (keys (put k v m)) = set (keys m)"
    by (auto simp: set_keys_put keys_find)
  then show ?thesis
    using keys_sorted [OF ok_put [OF assms(1)]] keys_sorted [OF assms(1)]
    by (intro strict_sorted_equal) simp_all
qed

lemma length_keys_put:
  assumes "ok m" and "find m k = None"
  shows "length (keys (put k v m)) = Suc (length (keys m))"
proof -
  have "k \<notin> set (keys m)" using assms(2) by (simp add: keys_find)
  then have "card (set (keys (put k v m))) = Suc (card (set (keys m)))"
    by (simp add: set_keys_put)
  with assms(1) show ?thesis
    by (simp add: distinct_card keys_distinct ok_put)
qed

lemma put_if_absent_keeps:
  "find m k = Some v \<Longrightarrow> find (if find m k' = None then put k' v' m else m) k = Some v"
  by (auto simp: find_put)

lemma put_if_absent_present:
  "find (if find m k = None then put k v m else m) k \<noteq> None"
  by (simp add: find_put)

lemma put_find_same: "find m k = Some v \<Longrightarrow> find (put k v m) = find m"
  by (rule ext) (simp add: find_put)

end

section \<open>The container meets the contract\<close>

lemma om_find_put: "om_find (om_put k v m) k' = (if k' = k then Some v else om_find m k')"
  by (induction m) (auto simp: om_find_def)

lemma set_om_keys: "k \<in> set (om_keys m) \<longleftrightarrow> om_find m k \<noteq> None"
  by (simp add: om_keys_def om_find_def map_of_eq_None_iff)

lemma set_keys_om_put: "fst ` set (om_put k v m) = insert k (fst ` set m)"
  by (induction m) auto

lemma om_ok_put: "om_ok m \<Longrightarrow> om_ok (om_put k v m)"
proof (induction m)
  case Nil
  show ?case by (simp add: om_ok_def om_keys_def)
next
  case (Cons x m)
  then have "om_ok (om_put k v m)" by (simp add: om_ok_def om_keys_def)
  with Cons.prems show ?case
    by (auto simp: om_ok_def om_keys_def set_keys_om_put)
qed

interpretation om: ordered_map om_find om_put om_keys om_ok
  by unfold_locales (simp_all add: om_find_put om_ok_put set_om_keys, simp add: om_ok_def)

lemma om_find_touch: "om_find (om_touch d k m) k' =
    (if k' = k \<and> om_find m k = None then Some d else om_find m k')"
  by (simp add: om_touch_def om_find_put)

lemma om_touch_present: "om_find (om_touch d k m) k \<noteq> None"
  unfolding om_touch_def by (rule om.put_if_absent_present)

lemma om_ok_touch: "om_ok m \<Longrightarrow> om_ok (om_touch d k m)"
  by (simp add: om_touch_def om_ok_put)

lemma om_touch_id: "om_find m k = Some v \<Longrightarrow> om_touch d k m = m"
  by (simp add: om_touch_def)

lemma length_om_keys [simp]: "length (om_keys m) = length m"
  by (simp add: om_keys_def)

lemma om_keys_put_old: "om_ok m \<Longrightarrow> om_find m k = Some v' \<Longrightarrow> om_keys (om_put k v m) = om_keys m"
  by (rule om.keys_put_old) simp_all

lemma om_find_mem: "om_find m k = Some v \<Longrightarrow> (k, v) \<in> set m"
  by (simp add: om_find_def map_of_SomeD)

lemma om_mem_find: "om_ok m \<Longrightarrow> (k, v) \<in> set m \<Longrightarrow> om_find m k = Some v"
  using om.keys_distinct [of m] by (simp add: om_find_def om_keys_def)

lemma om_find_erase: "om_find (om_erase k m) k' = (if k' = k then None else om_find m k')"
  by (induction m) (auto simp: om_find_def om_erase_def)

lemma om_ok_erase: "om_ok m \<Longrightarrow> om_ok (om_erase k m)"
  by (simp add: om_ok_def om_keys_def om_erase_def sorted_wrt_map sorted_wrt_filter)

section \<open>Growing maps\<close>

text \<open>
  \<open>om_le R m m'\<close>: every key of \<open>m\<close> is in \<open>m'\<close>, with a value that is \<open>R\<close>-above the old
  one, and the key order is kept.
\<close>

definition om_le :: "('v \<Rightarrow> 'v \<Rightarrow> bool) \<Rightarrow> ('k::linorder, 'v) omap \<Rightarrow> ('k, 'v) omap \<Rightarrow> bool" where
  "om_le R m m' \<longleftrightarrow> (om_ok m \<longrightarrow> om_ok m')
     \<and> (\<forall>k v. om_find m k = Some v \<longrightarrow> (\<exists>v'. om_find m' k = Some v' \<and> R v v'))"

lemma om_le_refl: "(\<And>v. R v v) \<Longrightarrow> om_le R m m"
  by (auto simp: om_le_def)

lemma om_le_trans:
  assumes "\<And>u v w. R u v \<Longrightarrow> R v w \<Longrightarrow> R u w" and "om_le R m n" and "om_le R n q"
  shows "om_le R m q"
  using assms unfolding om_le_def by meson

lemma om_le_put: "om_find m k = Some u \<Longrightarrow> R u v \<Longrightarrow> (\<And>v. R v v) \<Longrightarrow> om_le R m (om_put k v m)"
  by (auto simp: om_le_def om_find_put om_ok_put)

lemma om_le_touch: "(\<And>v. R v v) \<Longrightarrow> om_le R m (om_touch d k m)"
  by (auto simp: om_le_def om_find_touch om_ok_touch)

lemma om_leD: "om_le R m m' \<Longrightarrow> om_find m k = Some v \<Longrightarrow> \<exists>v'. om_find m' k = Some v' \<and> R v v'"
  by (simp add: om_le_def)

end
