(* ===== verification/Quorum.thy ===== *)
theory Quorum
  imports Prelude "HOL-Library.Multiset"
begin

text \<open>
  Order statistics and majorities. The two commit rules of the code (\<open>Raft::MaybeCommit\<close>
  and \<open>AnraftImpl::ReplicateLogToFollower\<close>) sort the indices that the peers have
  acknowledged and pick one position; this theory says what such a pick means, and what a
  majority is good for.
\<close>

section \<open>Sorting in descending order\<close>

text \<open>\<^verbatim>\<open>std::sort(begin, end, std::greater<uint64_t>())\<close>.\<close>

definition sort_desc :: "('a::linorder) list \<Rightarrow> 'a list" where
  "sort_desc xs = rev (sort xs)"

lemma mset_sort_desc [simp]: "mset (sort_desc xs) = mset xs"
  by (simp add: sort_desc_def)

lemma length_sort_desc [simp]: "length (sort_desc xs) = length xs"
  by (simp add: sort_desc_def)

lemma sort_desc_antimono: "i \<le> j \<Longrightarrow> j < length xs \<Longrightarrow> sort_desc xs ! j \<le> sort_desc xs ! i"
  using sorted_rev_nth_mono [of "sort_desc xs" i j] by (simp add: sort_desc_def)

text \<open>How many elements satisfy a predicate does not depend on the order.\<close>

definition count_if :: "('a \<Rightarrow> bool) \<Rightarrow> 'a list \<Rightarrow> nat" where
  "count_if P xs = length (filter P xs)"

lemma count_if_mset: "mset xs = mset ys \<Longrightarrow> count_if P xs = count_if P ys"
  unfolding count_if_def by (metis mset_filter size_mset)

lemma count_if_append [simp]: "count_if P (xs @ ys) = count_if P xs + count_if P ys"
  by (simp add: count_if_def)

lemma count_if_le: "count_if P xs \<le> length xs"
  by (simp add: count_if_def)

lemma count_if_all: "(\<And>x. x \<in> set xs \<Longrightarrow> P x) \<Longrightarrow> count_if P xs = length xs"
  by (simp add: count_if_def)

lemma count_if_none: "(\<And>x. x \<in> set xs \<Longrightarrow> \<not> P x) \<Longrightarrow> count_if P xs = 0"
  by (simp add: count_if_def)

lemma count_if_card: "distinct ps \<Longrightarrow> count_if P (map f ps) = card {p \<in> set ps. P (f p)}"
  by (simp add: count_if_def filter_map comp_def distinct_length_filter Collect_conj_eq Int_commute)

lemma count_if_mono: "(\<And>x. P x \<Longrightarrow> Q x) \<Longrightarrow> count_if P xs \<le> count_if Q xs"
  by (induction xs) (auto simp: count_if_def)

lemma count_if_split: "count_if P xs = count_if P (take k xs) + count_if P (drop k xs)"
  using count_if_append [of P "take k xs" "drop k xs"] by simp

text \<open>The \<open>k\<close>-th element of the descending order is reached by more than \<open>k\<close> elements.\<close>

lemma count_ge_sort_desc:
  assumes "k < length xs"
  shows "Suc k \<le> count_if (\<lambda>x. sort_desc xs ! k \<le> x) xs"
proof -
  let ?P = "\<lambda>x. sort_desc xs ! k \<le> x"
  have "?P x" if "x \<in> set (take (Suc k) (sort_desc xs))" for x
  proof -
    from that obtain i where "i < Suc k" "x = sort_desc xs ! i"
      using assms by (auto simp: in_set_conv_nth)
    with assms show ?thesis by (simp add: sort_desc_antimono)
  qed
  then have "count_if ?P (take (Suc k) (sort_desc xs)) = Suc k"
    using assms by (simp add: count_if_all)
  then have "Suc k \<le> count_if ?P (sort_desc xs)"
    by (subst count_if_split [of _ _ "Suc k"]) simp
  then show ?thesis by (simp add: count_if_mset [of "sort_desc xs" xs])
qed

text \<open>A larger value is reached by at most \<open>k\<close> of them.\<close>

lemma count_gt_sort_desc:
  assumes "k < length xs"
  shows "count_if (\<lambda>x. sort_desc xs ! k < x) xs \<le> k"
proof -
  let ?P = "\<lambda>x. sort_desc xs ! k < x"
  have "\<not> ?P x" if "x \<in> set (drop k (sort_desc xs))" for x
  proof -
    from that obtain i where "i < length xs - k" "x = sort_desc xs ! (k + i)"
      using assms by (auto simp: in_set_conv_nth)
    with assms show ?thesis by (simp add: sort_desc_antimono not_less)
  qed
  then have "count_if ?P (drop k (sort_desc xs)) = 0"
    by (rule count_if_none)
  then have "count_if ?P (sort_desc xs) \<le> k"
    using count_if_le [of ?P "take k (sort_desc xs)"]
    by (subst count_if_split [of _ _ k]) simp
  then show ?thesis by (simp add: count_if_mset [of "sort_desc xs" xs])
qed

lemma sort_desc_nth_mem: "k < length xs \<Longrightarrow> sort_desc xs ! k \<in> set xs"
  by (metis length_sort_desc mset_sort_desc nth_mem set_mset_mset)

text \<open>In ascending order, position \<open>k\<close> is position \<open>length xs - 1 - k\<close> of the descending one.\<close>

lemma sort_nth_sort_desc: "k < length xs \<Longrightarrow> sort xs ! k = sort_desc xs ! (length xs - Suc k)"
  by (simp add: sort_desc_def rev_nth)

lemma count_ge_sort:
  "k < length xs \<Longrightarrow> length xs - k \<le> count_if (\<lambda>x. sort xs ! k \<le> x) xs"
  using count_ge_sort_desc [of "length xs - Suc k" xs]
  by (simp add: sort_nth_sort_desc Suc_diff_Suc)

section \<open>Majorities\<close>

text \<open>
  \<open>quorum n\<close> is how many of \<open>n\<close> members must agree. It is a majority rule when two
  groups of that size always share a member.
\<close>

locale majority =
  fixes quorum :: "nat \<Rightarrow> nat"
  assumes more_than_half: "0 < n \<Longrightarrow> n < 2 * quorum n"
begin

lemma quorum_pos: "0 < n \<Longrightarrow> 0 < quorum n"
  using more_than_half [of n] by simp

lemma quorums_intersect:
  assumes "finite V" "V \<noteq> {}" "A \<subseteq> V" "B \<subseteq> V"
    and "quorum (card V) \<le> card A" "quorum (card V) \<le> card B"
  shows "A \<inter> B \<noteq> {}"
proof
  assume "A \<inter> B = {}"
  then have "card A + card B = card (A \<union> B)"
    using assms by (simp add: card_Un_disjoint finite_subset)
  also have "\<dots> \<le> card V"
    using assms by (simp add: card_mono)
  finally show False
    using assms more_than_half [of "card V"] by (simp add: card_gt_0_iff)
qed

text \<open>
  If a quorum of the members \<open>ps\<close> has acknowledged \<open>v\<close>, every quorum has a member that
  did: what a later leader learns from any quorum includes what was committed.
\<close>

lemma acknowledged_everywhere:
  assumes "distinct ps" "ps \<noteq> []" and "quorum (length ps) \<le> count_if (\<lambda>x. v \<le> x) (map f ps)"
    and "Q \<subseteq> set ps" and "quorum (length ps) \<le> card Q"
  shows "\<exists>p\<in>Q. v \<le> f p"
proof -
  let ?A = "{p \<in> set ps. v \<le> f p}"
  have "?A \<inter> Q \<noteq> {}"
    using assms by (intro quorums_intersect [of "set ps"]) (auto simp: distinct_card count_if_card)
  then show ?thesis by auto
qed

end

text \<open>A majority rule that a full membership can satisfy.\<close>

locale reachable_majority = majority +
  assumes within: "0 < n \<Longrightarrow> quorum n \<le> n"
begin

lemma full_membership: "finite V \<Longrightarrow> V \<noteq> {} \<Longrightarrow> quorum (card V) \<le> card V"
  by (simp add: within card_gt_0_iff)

text \<open>The pick at position \<open>quorum - 1\<close> is the largest value a quorum has reached.\<close>

lemma quorum_pick:
  assumes "xs \<noteq> []"
  shows "quorum (length xs) \<le> count_if (\<lambda>x. sort_desc xs ! (quorum (length xs) - 1) \<le> x) xs"
    and "sort_desc xs ! (quorum (length xs) - 1) < v \<Longrightarrow>
      count_if (\<lambda>x. v \<le> x) xs < quorum (length xs)"
proof -
  have lt: "quorum (length xs) - 1 < length xs" and q: "0 < quorum (length xs)"
    using assms within [of "length xs"] quorum_pos [of "length xs"] by auto
  show "quorum (length xs) \<le> count_if (\<lambda>x. sort_desc xs ! (quorum (length xs) - 1) \<le> x) xs"
    using count_ge_sort_desc [OF lt] q by simp
  assume v: "sort_desc xs ! (quorum (length xs) - 1) < v"
  have "count_if (\<lambda>x. v \<le> x) xs \<le> count_if (\<lambda>x. sort_desc xs ! (quorum (length xs) - 1) < x) xs"
    using v by (intro count_if_mono) simp
  also have "\<dots> \<le> quorum (length xs) - 1"
    by (rule count_gt_sort_desc [OF lt])
  finally show "count_if (\<lambda>x. v \<le> x) xs < quorum (length xs)" using q by simp
qed

end

section \<open>The rules the code uses\<close>

text \<open>
  \<open>majority_of\<close> is \<open>n / 2 + 1\<close>: the vote count of \<open>Raft::Quorum\<close> and of
  \<open>AnraftImpl::ElectionCallback\<close>. \<open>position_quorum\<close> is the number of members that
  position \<open>n / 2 - 1\<close> of an ascending order leaves at or above it, the commit rule of
  \<open>AnraftImpl\<close>.
\<close>

definition majority_of :: "nat \<Rightarrow> nat" where
  "majority_of n = n div 2 + 1"

definition position_quorum :: "nat \<Rightarrow> nat" where
  "position_quorum n = n - (n div 2 - 1)"

interpretation mq: reachable_majority majority_of
  by unfold_locales (auto simp: majority_of_def)

interpretation pq: majority position_quorum
  by unfold_locales (auto simp: position_quorum_def)

text \<open>
  The reference rule for a commit index, without sorting: the largest element that a majority
  of the elements reaches. The two picks of the code against it.
\<close>

definition majority_index :: "('a::linorder) list \<Rightarrow> 'a" where
  "majority_index xs = Max {x \<in> set xs. majority_of (length xs) \<le> count_if (\<lambda>y. x \<le> y) xs}"

lemma majority_of_pos [simp]: "0 < majority_of n"
  by (simp add: majority_of_def)

lemma majority_index_pick:
  assumes "xs \<noteq> []"
  shows "sort_desc xs ! (majority_of (length xs) - 1) = majority_index xs"
proof -
  let ?c = "sort_desc xs ! (majority_of (length xs) - 1)"
  have "majority_of (length xs) - 1 < length xs"
    using assms by (cases xs) (simp_all add: majority_of_def)
  then have "?c \<in> set xs" by (rule sort_desc_nth_mem)
  moreover have "x \<le> ?c" if "majority_of (length xs) \<le> count_if (\<lambda>y. x \<le> y) xs" for x
    using mq.quorum_pick(2) [OF assms, of x] that by (meson not_le)
  ultimately show ?thesis
    using mq.quorum_pick(1) [OF assms] unfolding majority_index_def
    by (intro Max_eqI [symmetric]) auto
qed

text \<open>Position \<open>n / 2 - 1\<close> of the ascending order is never above it, and meets it for an even \<open>n\<close>.\<close>

lemma majority_index_position:
  assumes "2 \<le> length xs"
  shows "sort xs ! (length xs div 2 - 1) \<le> majority_index xs"
    and "even (length xs) \<Longrightarrow> sort xs ! (length xs div 2 - 1) = majority_index xs"
proof -
  let ?n = "length xs"
  have ne: "xs \<noteq> []" and pos: "?n div 2 - 1 < ?n" using assms by auto
  have desc: "sort xs ! (?n div 2 - 1) = sort_desc xs ! (?n - ?n div 2)"
    using assms by (subst sort_nth_sort_desc [OF pos]) (simp add: Suc_diff_Suc)
  have pick: "majority_index xs = sort_desc xs ! (?n div 2)"
    using majority_index_pick [OF ne] by (simp add: majority_of_def)
  show "sort xs ! (?n div 2 - 1) \<le> majority_index xs"
    unfolding desc pick using assms by (intro sort_desc_antimono) linarith+
  show "sort xs ! (?n div 2 - 1) = majority_index xs" if "even ?n"
    unfolding desc pick using that by (metis add_diff_cancel_left' dvd_div_mult_self mult_2_right)
qed

end
