(* ===== verification/Raft_Core.thy ===== *)
theory Raft_Core
  imports Raft_Log Raft_Config Progress Ord_Map Quorum
begin

text \<open>
  \<^verbatim>\<open>src/src/anraft/raft.h\<close> and \<^verbatim>\<open>raft.cpp\<close>: the raft state machine of one node.
  The two \<^verbatim>\<open>std::function\<close> members are values that name the function they hold
  (\<^term>\<open>None\<close> for an empty one, whose call raises and ends the program). The outgoing
  queue \<open>msgs_\<close> is a list, oldest message first. Functions whose C++ body is empty have no
  effect and the return value \<open>NoReturn\<close>.
\<close>

section \<open>State\<close>

datatype state_type = StateFollower | StateCandidate | StateLeader | StatePreCandidate

datatype campaign_type = CampaignPreElection | CampaignElection | CampaignTransfer

datatype tick_func = TickElection | TickHeartbeat

datatype step_func = StepFollower | StepCandidate | StepLeader

record raft =
  r_id :: u64
  r_term :: u64
  r_vote :: u64
  r_state :: state_type
  r_pre_vote :: bool
  r_check_quorum :: bool
  r_is_learner :: bool
  r_max_msg_size :: u64
  r_prs :: "(u64, progress) omap"
  r_learner_prs :: "(u64, progress) omap"
  r_votes :: "(u64, bool) omap"
  r_msgs :: "message list"
  r_lead :: u64
  r_lead_transferee :: u64
  r_tick_func :: "tick_func option"
  r_step_func :: "step_func option"
  r_election_elapsed :: int
  r_heartbeat_elapsed :: int
  r_heartbeat_timeout :: int
  r_election_timeout :: int
  r_randomized_election_timeout :: int
  r_raftlog :: raft_log

section \<open>Small functions\<close>

definition is_response_msg :: "message_type \<Rightarrow> bool" where
  "is_response_msg t \<longleftrightarrow> t = MsgAppResp \<or> t = MsgVoteResp \<or> t = MsgHeartbeatResp
     \<or> t = MsgUnreachable \<or> t = MsgPreVoteResp"

definition vote_resp_msg_type :: "message_type \<Rightarrow> message_type" where
  "vote_resp_msg_type vote = (if vote = MsgVote then MsgVoteResp else MsgPreVoteResp)"

text \<open>\<open>Quorum\<close> converts the \<^verbatim>\<open>size_t\<close> result to \<open>int\<close>.\<close>

definition r_quorum :: "raft \<Rightarrow> int" where
  "r_quorum r = sint (of_nat (length (r_prs r) div 2 + 1) :: 32 word)"

definition r_promotable :: "raft \<Rightarrow> bool" where
  "r_promotable r \<longleftrightarrow> om_find (r_prs r) (r_id r) \<noteq> None"

definition r_past_election_timeout :: "raft \<Rightarrow> bool" where
  "r_past_election_timeout r \<longleftrightarrow> r_randomized_election_timeout r \<le> r_election_elapsed r"

definition r_send :: "message \<Rightarrow> raft \<Rightarrow> raft" where
  "r_send msg r = r\<lparr>r_msgs := r_msgs r @ [msg\<lparr>m_from := r_id r\<rparr>]\<rparr>"

text \<open>
  \<open>election_timeout_ + RandGenerator(election_timeout_)\<close> is computed in 64 bits and
  converted back to \<open>int\<close>.
\<close>

definition r_reset_randomized_election_timeout :: "env \<Rightarrow> raft \<Rightarrow> raft" where
  "r_reset_randomized_election_timeout g r =
     (let e = of_int (r_election_timeout r) :: u64
      in r\<lparr>r_randomized_election_timeout := sint (ucast (e + rand_below g e) :: 32 word)\<rparr>)"

definition r_reset :: "env \<Rightarrow> u64 \<Rightarrow> raft \<Rightarrow> raft" where
  "r_reset g trm r = r_reset_randomized_election_timeout g r"

definition r_add_node :: "u64 \<Rightarrow> raft \<Rightarrow> raft" where
  "r_add_node peer r = r"

text \<open>\<open>NewRaft\<close> and \<open>GetRaft\<close> return a reference and have empty bodies.\<close>

definition r_new_raft :: "config \<Rightarrow> unit rv" where
  "r_new_raft config = NoReturn"

definition r_get_raft :: "unit rv" where
  "r_get_raft = NoReturn"

text \<open>\<open>bool Raft::Poll()\<close>, \<open>CheckQuorumActive\<close>: bodies without a return statement.\<close>

definition r_poll_any :: "raft \<Rightarrow> bool rv" where
  "r_poll_any r = NoReturn"

definition r_check_quorum_active :: "raft \<Rightarrow> bool rv" where
  "r_check_quorum_active r = NoReturn"

section \<open>Becoming follower, candidate, leader\<close>

definition r_become_follower :: "env \<Rightarrow> u64 \<Rightarrow> u64 \<Rightarrow> raft \<Rightarrow> raft" where
  "r_become_follower g trm lead r =
     (let r = r\<lparr>r_step_func := Some StepFollower\<rparr>;
          r = r_reset g trm r
      in r\<lparr>r_tick_func := Some TickElection, r_lead := lead, r_state := StateFollower\<rparr>)"

definition r_become_candidate :: "env \<Rightarrow> raft \<Rightarrow> raft" where
  "r_become_candidate g r =
     (let r = r\<lparr>r_step_func := Some StepCandidate\<rparr>;
          r = r_reset g (r_term r + 1) r
      in r\<lparr>r_tick_func := Some TickElection, r_vote := r_id r, r_state := StateFollower\<rparr>)"

definition r_become_leader :: "env \<Rightarrow> raft \<Rightarrow> raft" where
  "r_become_leader g r =
     (let r = r\<lparr>r_step_func := Some StepLeader\<rparr>;
          r = r_reset g (r_term r) r
      in r\<lparr>r_tick_func := Some TickHeartbeat, r_lead := r_id r, r_state := StateLeader\<rparr>)"

section \<open>Progress of the peers\<close>

text \<open>
  \<open>GetProgress\<close> returns a pointer into one of the two maps, and puts a fresh progress into
  \<open>learner_prs_\<close> for an unknown id; it never returns null. The pointer is modelled by the
  map and the key.
\<close>

datatype progress_ref = InPrs u64 | InLearners u64

definition r_get_progress :: "u64 \<Rightarrow> raft \<Rightarrow> progress_ref \<times> raft" where
  "r_get_progress peer r =
     (if om_find (r_prs r) peer \<noteq> None then (InPrs peer, r)
      else (InLearners peer, r\<lparr>r_learner_prs := om_touch new_progress peer (r_learner_prs r)\<rparr>))"

definition r_progress :: "progress_ref \<Rightarrow> raft \<Rightarrow> progress option" where
  "r_progress ref r =
     (case ref of InPrs k \<Rightarrow> om_find (r_prs r) k | InLearners k \<Rightarrow> om_find (r_learner_prs r) k)"

definition r_set_progress :: "progress_ref \<Rightarrow> progress \<Rightarrow> raft \<Rightarrow> raft" where
  "r_set_progress ref p r =
     (case ref of
        InPrs k \<Rightarrow> r\<lparr>r_prs := om_put k p (r_prs r)\<rparr>
      | InLearners k \<Rightarrow> r\<lparr>r_learner_prs := om_put k p (r_learner_prs r)\<rparr>)"

text \<open>\<open>pr->MaybeUpdate(n)\<close> through the pointer.\<close>

definition r_progress_maybe_update :: "progress_ref \<Rightarrow> u64 \<Rightarrow> raft \<Rightarrow> (bool \<times> raft) option" where
  "r_progress_maybe_update ref n r = do {
     p \<leftarrow> r_progress ref r;
     let (b, p) = pr_maybe_update n p;
     Some (b, r_set_progress ref p r)
   }"

text \<open>
  The loop reads the keys of \<open>learner_prs_\<close> when it starts: the callbacks of this class can
  only insert the key 0, in front of every other key.
\<close>

definition r_for_each_progress :: "(env \<Rightarrow> u64 \<Rightarrow> raft \<Rightarrow> raft option) \<Rightarrow> env \<Rightarrow> raft \<Rightarrow> raft option" where
  "r_for_each_progress f g r = do {
     r \<leftarrow> for_each f (sub_call 0 g) (om_keys (r_prs r)) r;
     for_each f (sub_call 1 g) (om_keys (r_learner_prs r)) r
   }"

section \<open>Sending\<close>

definition r_send_heartbeat :: "env \<Rightarrow> u64 \<Rightarrow> bytes \<Rightarrow> raft \<Rightarrow> raft" where
  "r_send_heartbeat g to ctx r =
     r_send (new_message\<lparr>m_to := to, m_type := MsgHeartbeat, m_commit := indet_u64 g, m_context := ctx\<rparr>) r"

definition r_send_append :: "env \<Rightarrow> u64 \<Rightarrow> raft \<Rightarrow> raft option" where
  "r_send_append g to r = (
     let (ref, r) = r_get_progress to r in
     do {
       pr \<leftarrow> r_progress ref r;
       if pr_is_paused pr then Some r
       else do {
         let msg = new_message\<lparr>m_to := to\<rparr>;
         (term_error, trm) \<leftarrow> rl_term (sub_call 0 g) (r_raftlog r) (pr_next pr - 1);
         (entries_result, entries) \<leftarrow> rl_entries (r_raftlog r) (pr_next pr) (r_max_msg_size r) [];
         let msg = (if term_error \<noteq> ErrNone \<or> entries_result \<noteq> ErrNone then msg
                    else msg\<lparr>m_type := MsgApp, m_index := pr_next pr - 1, m_term := trm,
                             m_commit := rl_committed (r_raftlog r)\<rparr>);
         Some (r_send msg r)
       }
     })"

text \<open>
  The callback of \<open>BcastAppend\<close> and \<open>BcastHeartbeatWithCtx\<close> assigns its own id to the
  parameter (\<open>id = this->GetID()\<close>) and tests the result.
\<close>

definition r_bcast_append :: "env \<Rightarrow> raft \<Rightarrow> raft option" where
  "r_bcast_append g r =
     r_for_each_progress
       (\<lambda>g peer r. let peer = r_id r in if peer \<noteq> 0 then Some r else r_send_append g peer r) g r"

definition r_bcast_heartbeat_with_ctx :: "env \<Rightarrow> bytes \<Rightarrow> raft \<Rightarrow> raft option" where
  "r_bcast_heartbeat_with_ctx g ctx r =
     r_for_each_progress
       (\<lambda>g peer r. let peer = r_id r in if peer \<noteq> 0 then Some r else Some (r_send_heartbeat g peer ctx r)) g r"

text \<open>\<open>BcastHeartbeat\<close> uses the string that \<open>LastPendingRequestCtx\<close> does not return.\<close>

definition r_bcast_heartbeat :: "env \<Rightarrow> raft \<Rightarrow> raft option" where
  "r_bcast_heartbeat g r =
     (case ro_last_pending_request_ctx of
        NoReturn \<Rightarrow> None
      | Returns ctx \<Rightarrow> r_bcast_heartbeat_with_ctx g ctx r)"

section \<open>Commit and append\<close>

definition r_maybe_commit :: "env \<Rightarrow> raft \<Rightarrow> (bool \<times> raft) option" where
  "r_maybe_commit g r = do {
     let vp = map (\<lambda>x. pr_match (snd x)) (r_prs r);
     let vp = sort_desc vp;
     index \<leftarrow> vec_at vp (of_int (r_quorum r - 1));
     (b, l) \<leftarrow> rl_maybe_commit g index (r_term r) (r_raftlog r);
     Some (b, r\<lparr>r_raftlog := l\<rparr>)
   }"

primrec stamp_entries :: "u64 \<Rightarrow> u64 \<Rightarrow> log_entry list \<Rightarrow> log_entry list" where
  "stamp_entries trm index [] = []"
| "stamp_entries trm index (e # es) = e\<lparr>le_term := trm, le_index := index\<rparr> # stamp_entries trm (index + 1) es"

text \<open>The entries are stamped in place, in the caller's message.\<close>

definition r_append_entry :: "env \<Rightarrow> log_entry list \<Rightarrow> raft \<Rightarrow> (log_entry list \<times> raft) option" where
  "r_append_entry g entries r = do {
     li \<leftarrow> rl_last_index (r_raftlog r);
     let entries = stamp_entries (r_term r) (li + 1) entries;
     let (li, l) = rl_append_pb entries (r_raftlog r);
     let li = read_u64 (sub_call 0 g) li;
     let r = r\<lparr>r_raftlog := l\<rparr>;
     let (ref, r) = r_get_progress (r_id r) r;
     (_, r) \<leftarrow> r_progress_maybe_update ref li r;
     (_, r) \<leftarrow> r_maybe_commit (sub_call 1 g) r;
     Some (entries, r)
   }"

definition r_handle_append_entries :: "env \<Rightarrow> message \<Rightarrow> raft \<Rightarrow> raft option" where
  "r_handle_append_entries g msg r = (
     let resp = new_message\<lparr>m_to := m_from msg, m_type := MsgAppResp\<rparr>;
         r = (if m_index msg < rl_committed (r_raftlog r)
              then r_send (resp\<lparr>m_index := rl_committed (r_raftlog r)\<rparr>) r else r)
     in do {
       ((i, ok), l) \<leftarrow> rl_maybe_append g (m_index msg) (m_term msg) (m_commit msg) (m_entries msg) (r_raftlog r);
       let r = r\<lparr>r_raftlog := l\<rparr>;
       if ok then Some (r_send (resp\<lparr>m_index := i\<rparr>) r)
       else do {
         li \<leftarrow> rl_last_index (r_raftlog r);
         Some (r_send (resp\<lparr>m_index := m_index msg, m_reject := True, m_reject_hint := li\<rparr>) r)
       }
     })"

section \<open>Votes\<close>

text \<open>
  \<open>grant\<close> is not initialised, and is then incremented once per granted vote. The read is undefined
  behaviour by itself; the model goes on with any \<open>int\<close> and checks the increments.
\<close>

definition granted_votes :: "(u64, bool) omap \<Rightarrow> nat" where
  "granted_votes vs = count_if snd vs"

definition r_poll :: "env \<Rightarrow> u64 \<Rightarrow> message_type \<Rightarrow> bool \<Rightarrow> raft \<Rightarrow> (int \<times> raft) option" where
  "r_poll g peer t vote r = (
     let r = (if om_find (r_votes r) peer = None then r\<lparr>r_votes := om_put peer vote (r_votes r)\<rparr> else r)
     in do {
       grant \<leftarrow> int_add (indet_int g) (int (granted_votes (r_votes r)));
       Some (grant, r)
     })"

definition r_campaign :: "env \<Rightarrow> campaign_type \<Rightarrow> raft \<Rightarrow> raft" where
  "r_campaign g t r = (
     let (trm, msg_type, r) =
           (if t = CampaignPreElection then (indet_u64 (sub_call 0 g), indet_message_type (sub_call 1 g), r)
            else let r = r_become_candidate (sub_call 2 g) r in (r_term r, MsgVote, r))
     in if r_quorum r \<noteq> 0 \<and> read_bool (sub_call 3 g) (r_poll_any r) then r
        else fold (\<lambda>x r. if fst x = r_id r then r
                        else r_send (new_message\<lparr>m_term := trm, m_to := fst x, m_type := msg_type\<rparr>) r)
               (r_prs r) r)"

section \<open>The step functions\<close>

text \<open>
  The three functions return a \<open>RaftError\<close>, and have no return statement at their end: where C++
  leaves the behaviour undefined the result is \<open>NoReturn\<close>, and the state is that of the last
  statement.
\<close>

definition r_step_follower :: "env \<Rightarrow> message \<Rightarrow> raft \<Rightarrow> (raft_error rv \<times> message \<times> raft) option" where
  "r_step_follower g msg r =
     (case m_type msg of
        MsgApp \<Rightarrow> do {
          let r = r\<lparr>r_election_elapsed := 0, r_lead := m_from msg\<rparr>;
          r \<leftarrow> r_handle_append_entries g msg r;
          Some (NoReturn, msg, r)
        }
      | _ \<Rightarrow> Some (NoReturn, msg, r))"

definition r_step_candidate :: "env \<Rightarrow> message \<Rightarrow> raft \<Rightarrow> (raft_error rv \<times> message \<times> raft) option" where
  "r_step_candidate g msg r =
     (if m_type msg = MsgPreVoteResp \<or> m_type msg = MsgVoteResp then do {
        (grant, r) \<leftarrow> r_poll (sub_call 0 g) (m_from msg) (m_type msg) (\<not> m_reject msg) r;
        if r_quorum r < grant
        then (if r_state r = StatePreCandidate then Some (NoReturn, msg, r)
              else do {
                let r = r_become_leader (sub_call 1 g) r;
                r \<leftarrow> r_bcast_append (sub_call 2 g) r;
                Some (NoReturn, msg, r)
              })
        else Some (NoReturn, msg, r_become_follower (sub_call 1 g) (r_term r) 0 r)
      }
      else Some (NoReturn, msg, r))"

text \<open>
  The leader's step has two switches. The first one handles the messages that need no
  progress; unless it returns, the progress of the sender is looked up and the second
  switch handles \<open>MsgAppResp\<close>.
\<close>

definition r_step_leader_local :: "env \<Rightarrow> message \<Rightarrow> raft \<Rightarrow> (raft_error rv \<times> message \<times> raft) option" where
  "r_step_leader_local g msg r =
     (case m_type msg of
        MsgBeat \<Rightarrow> Some (NoReturn, msg, r)
      | MsgCheckQuorum \<Rightarrow>
          Some (NoReturn, msg,
            if \<not> read_bool (sub_call 0 g) (r_check_quorum_active r)
            then r_become_follower (sub_call 1 g) (r_term r) 0 r else r)
      | MsgProp \<Rightarrow>
          if om_find (r_prs r) (r_id r) = None then Some (Returns ErrProposalDropped, msg, r)
          else if r_lead_transferee r \<noteq> 0 then Some (Returns ErrProposalDropped, msg, r)
          else do {
            (entries, r) \<leftarrow> r_append_entry (sub_call 0 g) (m_entries msg) r;
            let msg = msg\<lparr>m_entries := entries\<rparr>;
            r \<leftarrow> r_bcast_append (sub_call 1 g) r;
            Some (NoReturn, msg, r)
          }
      | _ \<Rightarrow> Some (NoReturn, msg, r))"

definition r_step_leader_peer :: "env \<Rightarrow> message \<Rightarrow> raft \<Rightarrow> (raft_error rv \<times> message \<times> raft) option" where
  "r_step_leader_peer g msg r = (
     let (ref, r) = r_get_progress (m_from msg) r in
     case m_type msg of
        MsgAppResp \<Rightarrow>
          if m_reject msg then Some (NoReturn, msg, r)
          else do {
            (_, r) \<leftarrow> r_progress_maybe_update ref (m_index msg) r;
            (committed, r) \<leftarrow> r_maybe_commit (sub_call 0 g) r;
            if committed then do {
              r \<leftarrow> r_bcast_append (sub_call 1 g) r;
              Some (NoReturn, msg, r)
            }
            else Some (NoReturn, msg, r)
          }
      | _ \<Rightarrow> Some (NoReturn, msg, r))"

definition r_step_leader :: "env \<Rightarrow> message \<Rightarrow> raft \<Rightarrow> (raft_error rv \<times> message \<times> raft) option" where
  "r_step_leader g msg r = do {
     (v, msg, r) \<leftarrow> r_step_leader_local (sub_call 0 g) msg r;
     case v of
       Returns e \<Rightarrow> Some (Returns e, msg, r)
     | NoReturn \<Rightarrow> r_step_leader_peer (sub_call 1 g) msg r
   }"

definition r_call_step_func :: "env \<Rightarrow> message \<Rightarrow> raft \<Rightarrow> (raft_error rv \<times> message \<times> raft) option" where
  "r_call_step_func g msg r = do {
     f \<leftarrow> r_step_func r;
     case f of
       StepFollower \<Rightarrow> r_step_follower g msg r
     | StepCandidate \<Rightarrow> r_step_candidate g msg r
     | StepLeader \<Rightarrow> r_step_leader g msg r
   }"

section \<open>Step\<close>

definition r_step_hup :: "env \<Rightarrow> raft \<Rightarrow> raft" where
  "r_step_hup g r =
     (if r_state r \<noteq> StateLeader
      then (if r_pre_vote r then r else r_campaign g CampaignElection r) else r)"

definition r_can_vote :: "env \<Rightarrow> message \<Rightarrow> raft \<Rightarrow> bool option" where
  "r_can_vote g msg r =
     (if r_vote r = 0 \<or> r_vote r = m_from msg \<or> r_term r < m_term msg
      then rl_is_up_to_date g (r_raftlog r) (m_index msg) (m_term msg)
      else Some False)"

text \<open>The response to a vote request is built and then dropped.\<close>

definition r_step_vote :: "env \<Rightarrow> message \<Rightarrow> raft \<Rightarrow> raft option" where
  "r_step_vote g msg r =
     (if r_is_learner r then Some r
      else do {
        granted \<leftarrow> r_can_vote g msg r;
        let resp_msg = new_message\<lparr>m_to := m_from msg, m_term := m_term msg,
                                   m_type := vote_resp_msg_type (m_type msg)\<rparr>;
        Some (if granted \<and> m_type msg = MsgVote
              then r\<lparr>r_vote := m_from msg, r_election_elapsed := 0\<rparr> else r)
      })"

definition r_step :: "env \<Rightarrow> message \<Rightarrow> raft \<Rightarrow> (raft_error rv \<times> message \<times> raft) option" where
  "r_step g msg r =
     (if m_type msg = MsgHup then Some (Returns ErrNone, msg, r_step_hup g r)
      else if m_type msg = MsgVote \<or> m_type msg = MsgPreVote
      then do { r \<leftarrow> r_step_vote g msg r; Some (Returns ErrNone, msg, r) }
      else r_call_step_func g msg r)"

section \<open>Ticks\<close>

definition r_tick_election :: "env \<Rightarrow> raft \<Rightarrow> raft option" where
  "r_tick_election g r = do {
     n \<leftarrow> int_inc (r_election_elapsed r);
     let r = r\<lparr>r_election_elapsed := n\<rparr>;
     if r_promotable r \<and> r_past_election_timeout r then do {
       let r = r\<lparr>r_election_elapsed := 0\<rparr>;
       (_, _, r) \<leftarrow> r_step g (new_message\<lparr>m_type := MsgHup, m_from := r_id r\<rparr>) r;
       Some r
     }
     else Some r
   }"

definition r_tick_heartbeat :: "env \<Rightarrow> raft \<Rightarrow> raft option" where
  "r_tick_heartbeat g r = do {
     n \<leftarrow> int_inc (r_election_elapsed r);
     k \<leftarrow> int_inc (r_heartbeat_elapsed r);
     let r = r\<lparr>r_election_elapsed := n, r_heartbeat_elapsed := k\<rparr>;
     r \<leftarrow> (if r_election_timeout r < r_election_elapsed r then do {
             let r = r\<lparr>r_election_elapsed := 0\<rparr>;
             if r_check_quorum r then do {
               (_, _, r) \<leftarrow> r_step (sub_call 0 g) (new_message\<lparr>m_type := MsgCheckQuorum, m_from := r_id r\<rparr>) r;
               Some r
             }
             else Some r
           }
           else Some r);
     if r_state r \<noteq> StateLeader then Some r
     else if r_heartbeat_timeout r < r_heartbeat_elapsed r then do {
       k \<leftarrow> int_inc (r_heartbeat_elapsed r);
       let r = r\<lparr>r_heartbeat_elapsed := k\<rparr>;
       (_, _, r) \<leftarrow> r_step (sub_call 1 g) (new_message\<lparr>m_type := MsgBeat, m_from := r_id r\<rparr>) r;
       Some r
     }
     else Some r
   }"

definition r_tick :: "env \<Rightarrow> raft \<Rightarrow> raft option" where
  "r_tick g r = do {
     f \<leftarrow> r_tick_func r;
     case f of TickElection \<Rightarrow> r_tick_election g r | TickHeartbeat \<Rightarrow> r_tick_heartbeat g r
   }"

end
