(* ===== verification/Raft_Invariants.thy ===== *)
theory Raft_Invariants
  imports Raft_Core
begin

text \<open>
  What every operation of the \<open>Raft\<close> class keeps, whatever the unwritten functions return:
  the order \<open>raft_le\<close> (configuration fixed, peers' progress, votes, outgoing queue and commit
  index only grow) and the agreement of role, step function and tick function. Both are
  carried over to arbitrary runs of ticks and messages.
\<close>

section \<open>The order\<close>

definition r_config :: "raft \<Rightarrow> (u64 \<times> u64 \<times> bool \<times> bool \<times> bool \<times> u64) \<times> (u64 \<times> int \<times> int)" where
  "r_config r = ((r_id r, r_term r, r_pre_vote r, r_check_quorum r, r_is_learner r, r_max_msg_size r),
     (r_lead_transferee r, r_heartbeat_timeout r, r_election_timeout r))"

definition raft_le :: "raft \<Rightarrow> raft \<Rightarrow> bool" where
  "raft_le r r' \<longleftrightarrow> r_config r' = r_config r
     \<and> om_le pr_le (r_prs r) (r_prs r') \<and> (\<forall>k. om_find (r_prs r') k \<noteq> None \<longrightarrow> om_find (r_prs r) k \<noteq> None)
     \<and> om_le pr_le (r_learner_prs r) (r_learner_prs r')
     \<and> (\<forall>k. om_find (r_learner_prs r') k \<noteq> None \<longrightarrow> om_find (r_learner_prs r) k \<noteq> None \<or> om_find (r_prs r) k = None)
     \<and> om_le (=) (r_votes r) (r_votes r')
     \<and> (\<exists>ms. r_msgs r' = r_msgs r @ ms \<and> (\<forall>m\<in>set ms. m_from m = r_id r))
     \<and> rl_le (r_raftlog r) (r_raftlog r')"

lemma raft_le_refl [simp, intro]: "raft_le r r"
  by (auto simp: raft_le_def intro: om_le_refl pr_le_refl)

lemma raft_le_trans:
  assumes "raft_le r s" and "raft_le s t"
  shows "raft_le r t"
proof -
  have "r_id s = r_id r" using assms(1) by (simp add: raft_le_def r_config_def)
  with assms have "\<exists>ms. r_msgs t = r_msgs r @ ms \<and> (\<forall>m\<in>set ms. m_from m = r_id r)"
    unfolding raft_le_def by (elim conjE exE) (rule exI, auto)
  moreover have "om_le pr_le (r_prs r) (r_prs t)" "om_le pr_le (r_learner_prs r) (r_learner_prs t)"
    "om_le (=) (r_votes r) (r_votes t)"
    using assms unfolding raft_le_def by (blast intro: om_le_trans pr_le_trans trans)+
  moreover have "rl_le (r_raftlog r) (r_raftlog t)"
    using assms unfolding raft_le_def by (blast intro: rl_le_trans)
  moreover have "om_find (r_learner_prs r) k \<noteq> None \<or> om_find (r_prs r) k = None"
    if "om_find (r_learner_prs t) k \<noteq> None" for k
  proof -
    have "om_find (r_prs r) k = None" if "om_find (r_prs s) k = None"
      using assms(1) that by (cases "om_find (r_prs r) k") (auto simp: raft_le_def dest: om_leD)
    moreover have "om_find (r_learner_prs s) k \<noteq> None \<or> om_find (r_prs s) k = None"
      using assms(2) that unfolding raft_le_def by simp
    moreover have "om_find (r_learner_prs r) k \<noteq> None \<or> om_find (r_prs r) k = None"
      if "om_find (r_learner_prs s) k \<noteq> None"
      using assms(1) that unfolding raft_le_def by simp
    ultimately show ?thesis by argo
  qed
  ultimately show ?thesis using assms unfolding raft_le_def by simp
qed

text \<open>Fields outside the order can be written freely.\<close>

lemma raft_le_free [simp]:
  "raft_le r (s\<lparr>r_vote := v\<rparr>) = raft_le r s"
  "raft_le r (s\<lparr>r_state := st\<rparr>) = raft_le r s"
  "raft_le r (s\<lparr>r_lead := v\<rparr>) = raft_le r s"
  "raft_le r (s\<lparr>r_tick_func := tf\<rparr>) = raft_le r s"
  "raft_le r (s\<lparr>r_step_func := sf\<rparr>) = raft_le r s"
  "raft_le r (s\<lparr>r_election_elapsed := i\<rparr>) = raft_le r s"
  "raft_le r (s\<lparr>r_heartbeat_elapsed := i\<rparr>) = raft_le r s"
  "raft_le r (s\<lparr>r_randomized_election_timeout := i\<rparr>) = raft_le r s"
  by (simp_all add: raft_le_def r_config_def)

lemma raft_le_free_left [simp]:
  "raft_le (s\<lparr>r_vote := v\<rparr>) r = raft_le s r"
  "raft_le (s\<lparr>r_state := st\<rparr>) r = raft_le s r"
  "raft_le (s\<lparr>r_lead := v\<rparr>) r = raft_le s r"
  "raft_le (s\<lparr>r_tick_func := tf\<rparr>) r = raft_le s r"
  "raft_le (s\<lparr>r_step_func := sf\<rparr>) r = raft_le s r"
  "raft_le (s\<lparr>r_election_elapsed := i\<rparr>) r = raft_le s r"
  "raft_le (s\<lparr>r_heartbeat_elapsed := i\<rparr>) r = raft_le s r"
  "raft_le (s\<lparr>r_randomized_election_timeout := i\<rparr>) r = raft_le s r"
  by (simp_all add: raft_le_def r_config_def)

lemma raft_le_id: "raft_le r s \<Longrightarrow> r_id s = r_id r"
  by (simp add: raft_le_def r_config_def)

lemma raft_le_send: "raft_le r s \<Longrightarrow> raft_le r (r_send m s)"
  using raft_le_id [of r s] by (auto simp: raft_le_def r_send_def r_config_def)

lemma raft_le_log: "raft_le r s \<Longrightarrow> rl_le (r_raftlog s) l \<Longrightarrow> raft_le r (s\<lparr>r_raftlog := l\<rparr>)"
  by (auto simp: raft_le_def r_config_def intro: rl_le_trans)

lemma raft_le_step:
  assumes "raft_le r s" and "raft_le s t"
  shows "raft_le r t"
  using assms by (rule raft_le_trans)

text \<open>
  Sequencing: a defined step along the order, followed by a continuation that is safe from
  every state above.
\<close>

lemma post_raft_le:
  assumes "post m (\<lambda>x. raft_le s (f x))" and "raft_le r s"
    and "\<And>x. raft_le r (f x) \<Longrightarrow> Q x"
  shows "post m Q"
  using assms by (auto intro: post_mono raft_le_trans)

section \<open>Every operation moves along the order\<close>

lemma r_reset_le [simp]: "raft_le r (r_reset g t s) = raft_le r s"
  by (simp add: r_reset_def r_reset_randomized_election_timeout_def)

lemma r_become_le [simp]:
  "raft_le r (r_become_follower g t l s) = raft_le r s"
  "raft_le r (r_become_candidate g s) = raft_le r s"
  "raft_le r (r_become_leader g s) = raft_le r s"
  by (simp_all add: r_become_follower_def r_become_candidate_def r_become_leader_def)

lemma r_get_progress_le: "raft_le r s \<Longrightarrow> raft_le r (snd (r_get_progress k s))"
proof (rule raft_le_trans)
  show "raft_le s (snd (r_get_progress k s))"
    by (auto simp: raft_le_def r_get_progress_def r_config_def om_find_touch intro: om_le_refl om_le_touch
        split: if_splits)
qed

lemma r_set_progress_le:
  assumes "r_progress ref s = Some p" and "pr_le p q"
  shows "raft_le s (r_set_progress ref q s)"
  using assms
  by (cases ref) (auto simp: raft_le_def r_set_progress_def r_progress_def r_config_def om_find_put
      intro: om_le_refl om_le_put)

lemma r_progress_maybe_update_le: "post (r_progress_maybe_update ref n s) (\<lambda>x. raft_le s (snd x))"
  by (rule postI)
    (auto simp: r_progress_maybe_update_def bind_eq_Some_conv prod.case_eq_if
      intro!: r_set_progress_le pr_maybe_update_le)

lemma r_maybe_commit_le: "post (r_maybe_commit g s) (\<lambda>x. raft_le s (snd x))"
proof (rule postI)
  fix x assume "r_maybe_commit g s = Some x"
  then obtain i l where "rl_maybe_commit g i (r_term s) (r_raftlog s) = Some (fst x, l)"
    and "snd x = s\<lparr>r_raftlog := l\<rparr>"
    by (auto simp: r_maybe_commit_def bind_eq_Some_conv)
  then show "raft_le s (snd x)"
    using postD [OF rl_maybe_commit_le] by (fastforce intro: raft_le_log)
qed

lemma r_append_entry_le: "post (r_append_entry g es s) (\<lambda>x. raft_le s (snd x))"
proof -
  have "post (r_progress_maybe_update ref n t) (\<lambda>x. post (r_maybe_commit h (snd x)) (\<lambda>y. raft_le s (snd y)))"
    if "raft_le s t" for ref n t h
    by (rule post_raft_le [OF r_progress_maybe_update_le that], rule post_raft_le [OF r_maybe_commit_le])
  from this [OF r_get_progress_le] show ?thesis
    by (simp add: r_append_entry_def rl_append_pb_def prod.case_eq_if)
qed

lemma r_handle_append_entries_le: "post (r_handle_append_entries g msg s) (raft_le s)"
proof -
  let ?u = "if m_index msg < rl_committed (r_raftlog s)
    then r_send (new_message\<lparr>m_to := m_from msg, m_type := MsgAppResp,
      m_index := rl_committed (r_raftlog s)\<rparr>) s else s"
  have le: "raft_le s ?u" by (auto intro: raft_le_send)
  have app: "post (rl_maybe_append g i t c es (r_raftlog ?u)) (\<lambda>x. raft_le s (?u\<lparr>r_raftlog := snd x\<rparr>))" for i t c es
    using rl_maybe_append_le by (rule post_mono) (rule raft_le_log [OF le])
  show ?thesis
    unfolding r_handle_append_entries_def Let_def post_bind
    by (rule post_mono [OF app]) (auto simp: prod.case_eq_if intro!: raft_le_send postI)
qed

lemma r_send_append_le: "post (r_send_append g k s) (raft_le s)"
proof -
  have "raft_le s (snd (r_get_progress k s))" by (simp add: r_get_progress_le)
  then show ?thesis
    by (auto simp: r_send_append_def prod.case_eq_if intro!: postI raft_le_send)
qed

lemma r_for_each_progress_le:
  assumes "\<And>g k s. post (f g k s) (raft_le s)"
  shows "post (r_for_each_progress f g s) (raft_le s)"
proof -
  have each: "post (for_each f h ks t) (raft_le t)" for h ks t
    using raft_le_refl raft_le_trans assms by (rule for_each_rel)
  have from_s: "post (for_each f h ks t) (raft_le s)" if "raft_le s t" for h ks t
    using each by (rule post_mono) (rule raft_le_trans [OF that])
  show ?thesis
    unfolding r_for_each_progress_def post_bind by (rule post_mono [OF each]) (rule from_s)
qed

lemma r_bcast_append_le: "post (r_bcast_append g s) (raft_le s)"
  unfolding r_bcast_append_def by (rule r_for_each_progress_le) (simp add: r_send_append_le)

lemma r_bcast_heartbeat_le: "post (r_bcast_heartbeat_with_ctx g ctx s) (raft_le s)"
  unfolding r_bcast_heartbeat_with_ctx_def
  by (rule r_for_each_progress_le) (simp add: r_send_heartbeat_def raft_le_send)

lemma r_poll_le: "post (r_poll g k t v s) (\<lambda>x. raft_le s (snd x))"
proof -
  have "raft_le s (s\<lparr>r_votes := om_put k v (r_votes s)\<rparr>)" if "om_find (r_votes s) k = None"
    using that by (auto simp: raft_le_def r_config_def om_le_def om_find_put om_ok_put pr_le_refl)
  then show ?thesis by (auto simp: r_poll_def intro!: postI)
qed

lemma fold_send_le: "raft_le s t \<Longrightarrow> raft_le s (fold (\<lambda>x r. if c x r then r else r_send (m x) r) xs t)"
  by (induction xs arbitrary: t) (auto intro: raft_le_send)

lemma r_campaign_le: "raft_le s (r_campaign g t s)"
  by (auto simp: r_campaign_def intro!: fold_send_le)

section \<open>Steps and ticks\<close>

text \<open>The same facts from a state further down, for the middle of a handler.\<close>

lemma r_bcast_append_from: "raft_le s t \<Longrightarrow> post (r_bcast_append g t) (raft_le s)"
  by (rule post_raft_le [OF r_bcast_append_le])

lemma r_maybe_commit_from: "raft_le s t \<Longrightarrow> post (r_maybe_commit g t) (\<lambda>x. raft_le s (snd x))"
  by (rule post_raft_le [OF r_maybe_commit_le])

lemma r_progress_maybe_update_from:
  "raft_le s t \<Longrightarrow> post (r_progress_maybe_update ref n t) (\<lambda>x. raft_le s (snd x))"
  by (rule post_raft_le [OF r_progress_maybe_update_le])

lemma r_step_follower_le: "post (r_step_follower g msg s) (\<lambda>x. raft_le s (snd (snd x)))"
proof -
  have "post (r_handle_append_entries g msg (s\<lparr>r_election_elapsed := 0, r_lead := m_from msg\<rparr>)) (raft_le s)"
    by (rule post_raft_le [OF r_handle_append_entries_le]) simp_all
  then show ?thesis by (simp add: r_step_follower_def split: message_type.split)
qed

lemma r_step_candidate_le: "post (r_step_candidate g msg s) (\<lambda>x. raft_le s (snd (snd x)))"
  by (auto simp: r_step_candidate_def prod.case_eq_if
      intro!: post_mono [OF r_poll_le] r_bcast_append_from)

lemma r_step_leader_local_le: "post (r_step_leader_local g msg s) (\<lambda>x. raft_le s (snd (snd x)))"
  by (auto simp: r_step_leader_local_def prod.case_eq_if split: message_type.split
      intro!: post_mono [OF r_append_entry_le] r_bcast_append_from)

lemma r_step_leader_peer_le: "post (r_step_leader_peer g msg s) (\<lambda>x. raft_le s (snd (snd x)))"
  by (auto simp: r_step_leader_peer_def prod.case_eq_if r_get_progress_le split: message_type.split
      intro!: post_mono [OF r_progress_maybe_update_from [of s]] post_mono [OF r_maybe_commit_from [of s]]
        r_bcast_append_from)

lemma r_step_leader_le: "post (r_step_leader g msg s) (\<lambda>x. raft_le s (snd (snd x)))"
proof -
  have "post (r_step_leader_peer h m t) (\<lambda>x. raft_le s (snd (snd x)))" if "raft_le s t" for h m t
    by (rule post_raft_le [OF r_step_leader_peer_le that])
  then show ?thesis
    unfolding r_step_leader_def post_bind
    by (intro post_mono [OF r_step_leader_local_le]) (auto simp: prod.case_eq_if split: rv.split)
qed

lemma r_step_vote_le: "post (r_step_vote g msg s) (raft_le s)"
  by (auto simp: r_step_vote_def intro!: postI)

lemma r_step_le: "post (r_step g msg s) (\<lambda>x. raft_le s (snd (snd x)))"
  by (auto simp: r_step_def r_step_hup_def r_campaign_le r_step_vote_le r_call_step_func_def
      r_step_follower_le r_step_candidate_le r_step_leader_le split: step_func.split intro!: postI [of "r_step_func s"])

lemma r_step_from_le: "raft_le s t \<Longrightarrow> post (r_step g msg t) (\<lambda>x. raft_le s (snd (snd x)))"
  by (rule post_raft_le [OF r_step_le])

lemma r_tick_election_le: "post (r_tick_election g s) (raft_le s)"
  by (auto simp: r_tick_election_def prod.case_eq_if r_step_from_le intro!: postI [of "int_inc _"])

lemma r_tick_heartbeat_le: "post (r_tick_heartbeat g s) (raft_le s)"
proof -
  have beat: "post (r_step g msg (t\<lparr>r_heartbeat_elapsed := k\<rparr>)) (\<lambda>x. raft_le s (snd (snd x)))"
    if "raft_le s t" for g msg t k using that by (simp add: r_step_from_le)
  show ?thesis
    by (auto simp: r_tick_heartbeat_def prod.case_eq_if beat
        intro!: postI [of "int_inc _"] post_mono [OF r_step_from_le [of s]])
qed

lemma r_tick_le: "post (r_tick g s) (raft_le s)"
  by (auto simp: r_tick_def r_tick_election_le r_tick_heartbeat_le split: tick_func.split
      intro!: postI [of "r_tick_func s"])

section \<open>Parts of the state that an operation leaves alone\<close>

text \<open>
  Most operations touch only the log, the votes and the progress of the peers, and some of
  them send. Whatever a part \<open>p\<close> of the state says that these do not change is kept by every
  operation built from them.
\<close>

locale raft_frame =
  fixes p :: "raft \<Rightarrow> 'a"
  assumes get_progress: "p (snd (r_get_progress k s)) = p s"
    and set_progress: "p (r_set_progress ref q s) = p s"
    and raftlog: "p (s\<lparr>r_raftlog := l\<rparr>) = p s"
    and votes: "p (s\<lparr>r_votes := vs\<rparr>) = p s"
begin

lemma progress_maybe_update: "r_progress_maybe_update ref n s = Some x \<Longrightarrow> p (snd x) = p s"
  by (auto simp: r_progress_maybe_update_def bind_eq_Some_conv prod.case_eq_if set_progress)

lemma maybe_commit: "r_maybe_commit g s = Some x \<Longrightarrow> p (snd x) = p s"
  by (auto simp: r_maybe_commit_def bind_eq_Some_conv raftlog)

lemma append_entry: "r_append_entry g es s = Some x \<Longrightarrow> p (snd x) = p s"
  by (auto simp: r_append_entry_def bind_eq_Some_conv prod.case_eq_if rl_append_pb_def get_progress
      dest!: maybe_commit progress_maybe_update)

lemma poll: "r_poll g k t v s = Some x \<Longrightarrow> p (snd x) = p s"
  by (auto simp: r_poll_def bind_eq_Some_conv votes)

end

locale raft_frame_send = raft_frame +
  assumes send: "p (r_send m s) = p s"
begin

lemma handle_append_entries: "r_handle_append_entries g msg s = Some t \<Longrightarrow> p t = p s"
  by (auto simp: r_handle_append_entries_def bind_eq_Some_conv send raftlog split: if_splits)

lemma send_append: "post (r_send_append g k s) (\<lambda>t. p t = p s)"
  by (auto simp: r_send_append_def prod.case_eq_if send get_progress intro!: postI)

lemma bcast_append: "r_bcast_append g s = Some t \<Longrightarrow> p t = p s"
proof (rule postD [where P = "\<lambda>t. p t = p s"])
  let ?f = "\<lambda>g peer r. let peer = r_id r in if peer \<noteq> 0 then Some r else r_send_append g peer r"
  have each: "post (for_each ?f h ks u) (\<lambda>t. p t = p u)" for h ks u
    by (rule for_each_rel [where R = "\<lambda>u t. p t = p u"]) (auto simp: send_append)
  show "post (r_bcast_append g s) (\<lambda>t. p t = p s)"
    unfolding r_bcast_append_def r_for_each_progress_def post_bind
    using each by (rule post_mono) (rule post_mono [OF each], simp)
qed

lemma campaign: "p (fold (\<lambda>x r. if fst x = r_id r then r else r_send (msg x) r) xs s) = p s"
  by (induction xs arbitrary: s) (auto simp: send)

lemma step_leader_peer: "post (r_step_leader_peer g msg s) (\<lambda>x. p (snd (snd x)) = p s)"
proof (cases "m_type msg = MsgAppResp")
  case True
  have get: "p t = p s" if "r_get_progress k s = (ref, t)" for k ref t
    using get_progress [of k s] that by simp
  show ?thesis
    using True
    by (auto simp: r_step_leader_peer_def bind_eq_Some_conv get intro!: postI split: if_splits prod.splits
        dest!: progress_maybe_update maybe_commit bcast_append)
next
  case False
  then show ?thesis
    by (auto simp: r_step_leader_peer_def prod.case_eq_if get_progress split: message_type.split)
qed

end

section \<open>Roles\<close>

text \<open>
  \<open>r_roles\<close>: the members that say which role a node plays, and its vote. The operations below
  the step functions leave them alone.
\<close>

definition r_roles :: "raft \<Rightarrow> (state_type \<times> step_func option \<times> tick_func option) \<times> (u64 \<times> u64 \<times> u64)" where
  "r_roles r = ((r_state r, r_step_func r, r_tick_func r), (r_lead r, r_vote r, r_id r))"

lemma r_roles_eq:
  "r_roles t = r_roles s \<longleftrightarrow> r_state t = r_state s \<and> r_step_func t = r_step_func s
    \<and> r_tick_func t = r_tick_func s \<and> r_lead t = r_lead s \<and> r_vote t = r_vote s \<and> r_id t = r_id s"
  by (auto simp: r_roles_def)

lemma r_roles_simps [simp]:
  "r_roles (r_send m s) = r_roles s"
  "r_roles (snd (r_get_progress k s)) = r_roles s"
  "r_roles (r_set_progress ref p s) = r_roles s"
  "r_roles (s\<lparr>r_raftlog := l\<rparr>) = r_roles s"
  "r_roles (s\<lparr>r_votes := vs\<rparr>) = r_roles s"
  "r_roles (s\<lparr>r_election_elapsed := i\<rparr>) = r_roles s"
  "r_roles (s\<lparr>r_heartbeat_elapsed := i\<rparr>) = r_roles s"
  by (auto simp: r_roles_def r_send_def r_get_progress_def r_set_progress_def split: progress_ref.split)

interpretation roles: raft_frame_send r_roles
  by unfold_locales simp_all

lemmas roles_dest = roles.progress_maybe_update roles.maybe_commit roles.append_entry
  roles.handle_append_entries roles.bcast_append roles.poll

text \<open>
  The role invariant: the state, the two function members and the leader agree. No code
  path ever sets \<open>StateCandidate\<close>: a candidate is a node whose step function is \<open>StepCandidate\<close>.
\<close>

definition r_role_ok :: "raft \<Rightarrow> bool" where
  "r_role_ok r \<longleftrightarrow>
     r_state r = StateLeader \<and> r_step_func r = Some StepLeader
       \<and> r_tick_func r = Some TickHeartbeat \<and> r_lead r = r_id r
   \<or> r_state r = StateFollower \<and> r_tick_func r = Some TickElection
       \<and> (r_step_func r = Some StepFollower \<or> r_step_func r = Some StepCandidate)"

text \<open>The role machine that a node implements: who may become what.\<close>

inductive role_move :: "step_func \<Rightarrow> step_func \<Rightarrow> bool" where
  stay: "role_move a a"
| campaign: "a \<noteq> StepLeader \<Longrightarrow> role_move a StepCandidate"
| win: "role_move StepCandidate StepLeader"
| lose: "role_move StepCandidate StepFollower"
| step_down: "role_move StepLeader StepFollower"

inductive_cases role_move_to_leader: "role_move a StepLeader"
inductive_cases role_move_from_follower: "role_move StepFollower a"
inductive_simps role_move_simps: "role_move a b"

lemma role_move_leader: "role_move a StepLeader \<Longrightarrow> a = StepLeader \<or> a = StepCandidate"
  by (auto elim: role_move_to_leader)

lemma role_move_follower: "role_move StepFollower a \<Longrightarrow> a \<noteq> StepLeader"
  by (auto elim: role_move_from_follower)

text \<open>A node moves along the role machine when its invariant and its role do.\<close>

definition moves_to :: "raft \<Rightarrow> raft \<Rightarrow> bool" where
  "moves_to r r' \<longleftrightarrow> r_role_ok r' \<and> (\<forall>a b. r_step_func r = Some a \<longrightarrow> r_step_func r' = Some b \<longrightarrow> role_move a b)"

lemma moves_to_same: "r_role_ok r \<Longrightarrow> r_roles r' = r_roles r \<Longrightarrow> moves_to r r'"
  by (auto simp: moves_to_def r_role_ok_def r_roles_eq intro: role_move.stay)

lemma r_become_roles [simp]:
  "r_state (r_become_follower g t l s) = StateFollower"
  "r_step_func (r_become_follower g t l s) = Some StepFollower"
  "r_tick_func (r_become_follower g t l s) = Some TickElection"
  "r_state (r_become_candidate g s) = StateFollower"
  "r_step_func (r_become_candidate g s) = Some StepCandidate"
  "r_tick_func (r_become_candidate g s) = Some TickElection"
  "r_state (r_become_leader g s) = StateLeader"
  "r_step_func (r_become_leader g s) = Some StepLeader"
  "r_tick_func (r_become_leader g s) = Some TickHeartbeat"
  "r_lead (r_become_leader g s) = r_id (r_become_leader g s)"
  by (simp_all add: r_become_follower_def r_become_candidate_def r_become_leader_def r_reset_def
      r_reset_randomized_election_timeout_def)

lemma r_become_role_ok [simp]:
  "r_role_ok (r_become_follower g t l s)" "r_role_ok (r_become_candidate g s)" "r_role_ok (r_become_leader g s)"
  by (simp_all add: r_role_ok_def)

lemma moves_to_roles: "moves_to r s \<Longrightarrow> r_roles t = r_roles s \<Longrightarrow> moves_to r t"
  by (simp add: moves_to_def r_roles_eq r_role_ok_def)

lemma moves_toI:
  "r_role_ok r' \<Longrightarrow> r_step_func r = Some a \<Longrightarrow> r_step_func r' = Some b \<Longrightarrow> role_move a b \<Longrightarrow> moves_to r r'"
  by (simp add: moves_to_def)

lemma r_step_follower_moves:
  assumes "r_role_ok r" and "r_step_func r = Some StepFollower"
  shows "post (r_step_follower g msg r) (\<lambda>x. moves_to r (snd (snd x)))"
proof -
  let ?r = "r\<lparr>r_election_elapsed := 0, r_lead := m_from msg\<rparr>"
  have "moves_to r ?r"
    using assms by (auto simp: r_role_ok_def intro!: moves_toI role_move.stay)
  then have "post (r_handle_append_entries g msg ?r) (moves_to r)"
    by (intro postI) (drule roles.handle_append_entries, erule moves_to_roles)
  moreover have "moves_to r r" using assms(1) by (simp add: moves_to_same)
  ultimately show ?thesis
    by (simp add: r_step_follower_def split: message_type.split)
qed

lemma r_step_candidate_moves:
  assumes "r_role_ok r" and "r_step_func r = Some StepCandidate"
  shows "post (r_step_candidate g msg r) (\<lambda>x. moves_to r (snd (snd x)))"
proof -
  have same: "moves_to r t" if "r_roles t = r_roles r" for t
    using moves_to_same [OF assms(1) that] .
  have poll: "post (r_poll g k ty v r) (\<lambda>x. r_roles (snd x) = r_roles r)" for g k ty v
    by (rule postI) (rule roles.poll)
  have lead: "post (r_bcast_append h (r_become_leader h' t)) (moves_to r)" for h h' t
  proof (rule postI)
    fix x assume "r_bcast_append h (r_become_leader h' t) = Some x"
    then have "r_roles x = r_roles (r_become_leader h' t)" by (rule roles.bcast_append)
    moreover have "moves_to r (r_become_leader h' t)"
      using assms(2) by (intro moves_toI) (auto intro: role_move.win)
    ultimately show "moves_to r x" by (rule moves_to_roles [rotated])
  qed
  have follow: "moves_to r (r_become_follower h tr l t)" for h tr l t
    using assms(2) by (intro moves_toI) (auto intro: role_move.lose)
  show ?thesis
    unfolding r_step_candidate_def
    by (auto simp: same lead follow intro!: post_mono [OF poll])
qed


lemma moves_to_start: "moves_to s t \<Longrightarrow> r_step_func r = r_step_func s \<Longrightarrow> moves_to r t"
  by (simp add: moves_to_def)

lemma moves_to_ok: "moves_to r t \<Longrightarrow> r_role_ok t"
  by (simp add: moves_to_def)

lemma r_step_leader_local_moves:
  assumes "r_role_ok r" and "r_step_func r = Some StepLeader"
  shows "post (r_step_leader_local g msg r) (\<lambda>x. moves_to r (snd (snd x)))"
proof -
  have refl: "moves_to r r" using assms(1) by (simp add: moves_to_same)
  have follow: "moves_to r (r_become_follower h tr l t)" for h tr l t
    using assms(2) by (intro moves_toI) (auto intro: role_move.step_down)
  have proposal: "moves_to r v" if "r_append_entry h es r = Some (es', u)" "r_bcast_append h' u = Some v" for h h' es es' u v
    using moves_to_same [OF assms(1), of v] roles.append_entry [OF that(1)] roles.bcast_append [OF that(2)]
    by simp
  show ?thesis
  proof (cases "m_type msg = MsgProp")
    case True
    then show ?thesis
      by (auto simp: r_step_leader_local_def bind_eq_Some_conv proposal refl intro!: postI split: if_splits)
  next
    case False
    then show ?thesis
      by (auto simp: r_step_leader_local_def refl follow split: message_type.split)
  qed
qed

lemma r_step_leader_moves:
  assumes "r_role_ok r" and "r_step_func r = Some StepLeader"
  shows "post (r_step_leader g msg r) (\<lambda>x. moves_to r (snd (snd x)))"
proof -
  have peer: "post (r_step_leader_peer h m t) (\<lambda>x. moves_to r (snd (snd x)))" if "moves_to r t" for h m t
    using roles.step_leader_peer by (rule post_mono) (rule moves_to_roles [OF that])
  then show ?thesis
    unfolding r_step_leader_def post_bind
    by (intro post_mono [OF r_step_leader_local_moves [OF assms]]) (auto simp: prod.case_eq_if split: rv.split)
qed

lemma r_step_hup_moves:
  assumes "r_role_ok r"
  shows "moves_to r (r_step_hup g r)"
proof (cases "r_state r = StateLeader \<or> r_pre_vote r")
  case True
  then show ?thesis using assms by (auto simp: r_step_hup_def moves_to_same)
next
  case False
  with assms obtain a where a: "r_step_func r = Some a" "a \<noteq> StepLeader"
    by (auto simp: r_role_ok_def)
  have cand: "moves_to r (r_become_candidate h r)" for h
    using a by (intro moves_toI) (auto intro: role_move.campaign)
  from False show ?thesis
    by (auto simp: r_step_hup_def r_campaign_def cand intro: moves_to_roles [OF cand roles.campaign])
qed

lemma r_step_vote_moves: "r_role_ok r \<Longrightarrow> post (r_step_vote g msg r) (moves_to r)"
  by (auto simp: r_step_vote_def moves_to_def r_role_ok_def intro!: postI intro: role_move.stay)

lemma r_step_moves: "r_role_ok r \<Longrightarrow> post (r_step g msg r) (\<lambda>x. moves_to r (snd (snd x)))"
  by (auto simp: r_step_def r_call_step_func_def r_step_hup_moves r_step_vote_moves r_step_follower_moves
      r_step_candidate_moves r_step_leader_moves split: step_func.split intro!: postI [of "r_step_func r"])

text \<open>A step from a state that differs only in its counters.\<close>

lemma r_step_moves_from:
  assumes "r_role_ok r" and "r_roles s = r_roles r"
  shows "post (r_step g msg s) (\<lambda>x. moves_to r (snd (snd x)))"
proof (rule post_mono [OF r_step_moves [of s g msg]])
  show "r_role_ok s" using moves_to_ok [OF moves_to_same [OF assms]] .
  show "moves_to r (snd (snd x))" if "moves_to s (snd (snd x))" for x
    using that assms(2) by (auto intro: moves_to_start simp: r_roles_eq)
qed


lemma r_tick_election_moves: "r_role_ok r \<Longrightarrow> post (r_tick_election g r) (moves_to r)"
  by (auto simp: r_tick_election_def prod.case_eq_if r_step_moves_from moves_to_same intro!: postI [of "int_inc _"])

text \<open>
  The second step of a leader's tick runs only while the node is still leader, so that the
  two steps together are one move of the role machine.
\<close>

lemma r_beat_moves:
  assumes "moves_to r s" and "r_step_func r = Some StepLeader" and "r_state s = StateLeader" and "r_roles t = r_roles s"
  shows "post (r_step g msg t) (\<lambda>x. moves_to r (snd (snd x)))"
proof -
  have ok: "r_role_ok s" using assms(1) by (rule moves_to_ok)
  with assms(3) have "r_step_func s = Some StepLeader" by (auto simp: r_role_ok_def)
  with assms(2) have "r_step_func r = r_step_func s" by simp
  then show ?thesis
    using r_step_moves_from [OF ok assms(4)] by (auto intro: post_mono moves_to_start)
qed

lemma r_tick_heartbeat_moves:
  assumes "r_role_ok r" and "r_step_func r = Some StepLeader"
  shows "post (r_tick_heartbeat g r) (moves_to r)"
proof -
  have beat: "post (r_step h msg (t\<lparr>r_heartbeat_elapsed := k\<rparr>)) (\<lambda>x. moves_to r (snd (snd x)))"
    if "moves_to r t" "r_state t = StateLeader" for h msg t k
    using that assms(2) by (intro r_beat_moves [of r t]) simp_all
  have same: "moves_to r t" if "r_roles t = r_roles r" for t
    using moves_to_same [OF assms(1) that] .
  have quorum: "post (r_step h msg t) (\<lambda>x. moves_to r (snd (snd x)))" if "r_roles t = r_roles r" for h msg t
    using r_step_moves_from [OF assms(1) that] .
  show ?thesis
    by (auto simp: r_tick_heartbeat_def prod.case_eq_if beat same intro!: postI [of "int_inc _"];
        rule post_mono [OF quorum], simp; auto simp: beat intro!: postI [of "int_inc _"])
qed

lemma r_tick_moves: "r_role_ok r \<Longrightarrow> post (r_tick g r) (moves_to r)"
  by (auto simp: r_tick_def r_role_ok_def r_tick_election_moves r_tick_heartbeat_moves)

section \<open>Runs\<close>

text \<open>
  What drives a node: the timer calls \<open>Tick\<close>, and every message from a client or a peer goes
  to \<open>Step\<close>. A run is a list of these events.
\<close>

datatype raft_event = EvTick | EvMsg message

definition r_event :: "env \<Rightarrow> raft_event \<Rightarrow> raft \<Rightarrow> raft option" where
  "r_event g ev r =
     (case ev of
        EvTick \<Rightarrow> r_tick g r
      | EvMsg msg \<Rightarrow> do { (_, _, r) \<leftarrow> r_step g msg r; Some r })"

definition r_run :: "env \<Rightarrow> raft_event list \<Rightarrow> raft \<Rightarrow> raft option" where
  "r_run = for_each r_event"

lemma r_event_le: "post (r_event g ev r) (raft_le r)"
  by (auto simp: r_event_def prod.case_eq_if r_tick_le r_step_le split: raft_event.split)

lemma r_event_moves: "r_role_ok r \<Longrightarrow> post (r_event g ev r) (moves_to r)"
  by (auto simp: r_event_def prod.case_eq_if r_tick_moves r_step_moves split: raft_event.split)

interpretation raft_run: ordered_machine r_event raft_le
  by unfold_locales (auto intro: raft_le_trans r_event_le)

interpretation raft_roles: invariant_machine r_event "\<lambda>_. True" r_role_ok
  by unfold_locales (auto intro: post_mono [OF r_event_moves] moves_to_ok)

end
