(* ===== verification/Raft_Properties.thy ===== *)
theory Raft_Properties
  imports Raft_Invariants
begin

text \<open>
  The properties of the raft state machine of \<open>Raft_Core\<close>: the commit rule, elections and
  votes, timers, replication messages, and what every run keeps.
\<close>

section \<open>Shared lemmas\<close>

text \<open>A peer set that fits the \<open>int\<close> in which \<open>Quorum\<close> counts it.\<close>

definition peers_ok :: "raft \<Rightarrow> bool" where
  "peers_ok r \<longleftrightarrow> om_ok (r_prs r) \<and> length (r_prs r) < 2147483648"

lemma sint_of_nat_32: "n < 2147483648 \<Longrightarrow> sint (of_nat n :: 32 word) = int n"
  by (simp add: sint_uint uint_nat signed_take_bit_int_eq_self unat_of_nat take_bit_nat_eq_self)

lemma r_quorum_small: "peers_ok r \<Longrightarrow> r_quorum r = int (majority_of (length (r_prs r)))"
  unfolding r_quorum_def peers_ok_def majority_of_def by (rule sint_of_nat_32) linarith

lemma r_quorum_index:
  assumes "peers_ok r"
  shows "unat (of_int (r_quorum r) - 1 :: u64) = length (r_prs r) div 2"
proof -
  have "length (r_prs r) div 2 < 18446744073709551616"
    using assms unfolding peers_ok_def by linarith
  then show ?thesis using assms by (simp add: r_quorum_small majority_of_def)
qed

definition peer_matches :: "raft \<Rightarrow> u64 list" where
  "peer_matches r = map (\<lambda>x. pr_match (snd x)) (r_prs r)"

lemma peer_matches_find:
  "om_ok (r_prs r) \<Longrightarrow> peer_matches r = map (\<lambda>k. pr_match (the (om_find (r_prs r) k))) (om_keys (r_prs r))"
  by (auto simp: peer_matches_def om_keys_def dest: om_mem_find)

lemma r_maybe_commit_picks:
  assumes "peers_ok r" and "r_maybe_commit g r = Some (b, r')"
  shows "r_prs r \<noteq> []"
    and "\<exists>l. rl_maybe_commit g (sort_desc (peer_matches r) ! (majority_of (length (peer_matches r)) - 1))
        (r_term r) (r_raftlog r) = Some (b, l) \<and> r' = r\<lparr>r_raftlog := l\<rparr>"
  using assms
  by (auto simp: r_maybe_commit_def bind_eq_Some_conv vec_at_def r_quorum_index peer_matches_def
      majority_of_def split: if_splits)


lemma r_maybe_commit_log: "r_maybe_commit g r = Some (b, r') \<Longrightarrow> r' = r\<lparr>r_raftlog := r_raftlog r'\<rparr>"
  by (auto simp: r_maybe_commit_def bind_eq_Some_conv)

section \<open>A three-node cluster for the witnesses\<close>

definition sample_raft :: raft where
  "sample_raft = \<lparr>r_id = 1, r_term = 14, r_vote = 0, r_state = StateFollower, r_pre_vote = False,
     r_check_quorum = True, r_is_learner = False, r_max_msg_size = 100,
     r_prs = [(1, new_progress\<lparr>pr_match := 5, pr_next := 6\<rparr>), (2, new_progress\<lparr>pr_match := 5, pr_next := 6\<rparr>),
              (3, new_progress\<lparr>pr_match := 3, pr_next := 4\<rparr>)],
     r_learner_prs = [], r_votes = [(1, True)], r_msgs = [], r_lead = 0, r_lead_transferee = 0,
     r_tick_func = Some TickElection, r_step_func = Some StepFollower,
     r_election_elapsed = 0, r_heartbeat_elapsed = 0, r_heartbeat_timeout = 1, r_election_timeout = 3,
     r_randomized_election_timeout = 4, r_raftlog = sample_log\<rparr>"

definition sample_leader :: raft where
  "sample_leader = sample_raft\<lparr>r_state := StateLeader, r_step_func := Some StepLeader,
     r_tick_func := Some TickHeartbeat, r_lead := 1\<rparr>"

definition sample_candidate :: raft where
  "sample_candidate = sample_raft\<lparr>r_step_func := Some StepCandidate, r_vote := 1\<rparr>"

lemmas sample_defs = sample_raft_def sample_leader_def sample_candidate_def

lemma sample_log_sel [simp]: "rl_committed sample_log = 3"
  by (simp add: sample_log_def)

lemma sample_raft_ok [simp]:
  "peers_ok sample_raft" "peers_ok sample_leader" "peers_ok sample_candidate"
  by (simp_all add: peers_ok_def om_ok_def om_keys_def sample_defs u64_order)

lemma sample_role_ok [simp]:
  "r_role_ok sample_raft" "r_role_ok sample_leader" "r_role_ok sample_candidate"
  by (simp_all add: r_role_ok_def sample_defs)

section \<open>Commit\<close>

text \<open>C1: When \<open>MaybeCommit\<close> of the leader advances the commit index, the new index is one that a
  majority of the peers has acknowledged and the largest such index; every set of peers that
  is as large as a majority contains one that acknowledged it; it lies inside the log; and
  nothing but the commit index changes.\<close>

theorem raft_commit_needs_majority:
  assumes "peers_ok r" and "ms_wf m" and "rl_storage (r_raftlog r) = Some (ms_storage m)"
    and "log_ok (ms_view m) (rl_unstable (r_raftlog r))" and "r_term r \<noteq> 0"
    and "r_maybe_commit g r = Some (True, r')"
  shows "\<exists>c. r' = r\<lparr>r_raftlog := (r_raftlog r)\<lparr>rl_committed := c\<rparr>\<rparr> \<and> rl_committed (r_raftlog r) < c
    \<and> unat c \<le> log_last (ms_view m) (rl_unstable (r_raftlog r))
    \<and> majority_of (length (r_prs r)) \<le> count_if (\<lambda>i. c \<le> i) (peer_matches r)
    \<and> (\<forall>d. c < d \<longrightarrow> count_if (\<lambda>i. d \<le> i) (peer_matches r) < majority_of (length (r_prs r)))
    \<and> (\<forall>Q. Q \<subseteq> set (om_keys (r_prs r)) \<and> majority_of (length (r_prs r)) \<le> card Q \<longrightarrow>
        (\<exists>k\<in>Q. \<exists>p. om_find (r_prs r) k = Some p \<and> c \<le> pr_match p))"
proof -
  let ?ms = "peer_matches r"
  let ?c = "sort_desc ?ms ! (majority_of (length ?ms) - 1)"
  from r_maybe_commit_picks [OF assms(1,6)] obtain l where prs: "r_prs r \<noteq> []"
    and run: "rl_maybe_commit g ?c (r_term r) (r_raftlog r) = Some (True, l)"
    and r': "r' = r\<lparr>r_raftlog := l\<rparr>" by blast
  have len: "length ?ms = length (r_prs r)" by (simp add: peer_matches_def)
  with prs have ne: "?ms \<noteq> []" by auto
  note pick = mq.quorum_pick [OF ne] and cases = rl_maybe_commit_cases [OF run]
  have "\<exists>k\<in>Q. \<exists>p. om_find (r_prs r) k = Some p \<and> ?c \<le> pr_match p"
    if Q: "Q \<subseteq> set (om_keys (r_prs r))" "majority_of (length (r_prs r)) \<le> card Q" for Q
  proof -
    have ok: "om_ok (r_prs r)" using assms(1) by (simp add: peers_ok_def)
    have "\<exists>k\<in>Q. ?c \<le> pr_match (the (om_find (r_prs r) k))"
      by (rule mq.acknowledged_everywhere [of "om_keys (r_prs r)"])
        (use pick(1) Q prs len om.keys_distinct [OF ok] in \<open>simp_all add: peer_matches_find [OF ok] om_keys_def\<close>)
    then obtain k where k: "k \<in> Q" "?c \<le> pr_match (the (om_find (r_prs r) k))" by blast
    with Q(1) have "om_find (r_prs r) k \<noteq> None" using set_om_keys [of k "r_prs r"] by blast
    with k show ?thesis by force
  qed
  moreover have "unat ?c \<le> log_last (ms_view m) (rl_unstable (r_raftlog r))"
    using ms.maybe_commit_in_log [OF assms(2-5) run] .
  ultimately show ?thesis
    using pick cases r' len by (intro exI [of _ ?c]) simp
qed


theorem raft_commit_needs_majority_witness:
  "r_maybe_commit (env_const 14) sample_raft = Some (True, sample_raft\<lparr>r_raftlog := sample_log\<lparr>rl_committed := 5\<rparr>\<rparr>)
    \<and> majority_of 3 \<le> count_if (\<lambda>i. 5 \<le> i) (peer_matches sample_raft)"
proof -
  have q: "r_quorum sample_raft = 2"
    by (simp add: r_quorum_small majority_of_def) (simp add: sample_defs)
  have log: "rl_maybe_commit (env_const 14) 5 14 sample_log = Some (True, sample_log\<lparr>rl_committed := 5\<rparr>)"
    by (simp add: rl_maybe_commit_def rl_term_def rl_commit_to_def rl_zero_term_on_err_compacted_def
        sample_log_first_index sample_log_last_index indet_error_def raft_errors_def u64_order)
  have run: "r_maybe_commit (env_const 14) sample_raft
      = Some (True, sample_raft\<lparr>r_raftlog := sample_log\<lparr>rl_committed := 5\<rparr>\<rparr>)"
    unfolding r_maybe_commit_def q
    by (simp add: sample_defs sort_desc_def vec_at_def log u64_order)
  have sel: "r_raftlog sample_raft = sample_log" "r_term sample_raft = 14" "length (r_prs sample_raft) = 3"
    by (simp_all add: sample_defs)
  have hyps: "rl_storage (r_raftlog sample_raft) = Some (ms_storage sample_storage)"
    "log_ok (ms_view sample_storage) (rl_unstable (r_raftlog sample_raft))" "r_term sample_raft \<noteq> 0"
    by (simp_all only: sel sample_log_storage sample_log_ok) simp
  from raft_commit_needs_majority [OF sample_raft_ok(1) sample_storage_wf hyps run]
  obtain c where eq: "sample_raft\<lparr>r_raftlog := sample_log\<lparr>rl_committed := 5\<rparr>\<rparr>
        = sample_raft\<lparr>r_raftlog := (r_raftlog sample_raft)\<lparr>rl_committed := c\<rparr>\<rparr>"
    and c: "majority_of (length (r_prs sample_raft)) \<le> count_if (\<lambda>i. c \<le> i) (peer_matches sample_raft)"
    by (elim exE conjE) (rule that)
  from arg_cong [OF eq, of "\<lambda>r. rl_committed (r_raftlog r)"] have "c = 5" by simp
  with c run sel show ?thesis by simp
qed


section \<open>Runs\<close>

lemma r_run_le: "r_run g evs r = Some r' \<Longrightarrow> raft_le r r'"
  unfolding r_run_def by (rule postD [OF raft_run.run_le])

lemma sample_tick: "r_run (env_const 0) [EvTick] sample_raft = Some (sample_raft\<lparr>r_election_elapsed := 1\<rparr>)"
  by (simp add: r_run_def r_event_def r_tick_def r_tick_election_def r_past_election_timeout_def
      int_inc_def int_add_def int_max_def sample_defs)

text \<open>C2: \<open>MaybeCommit\<close>, which sorts the acknowledged indices and reads position \<open>Quorum() - 1\<close>, is
  the reference rule \<open>commit the largest index that a majority has acknowledged\<close>, on every
  membership that fits an \<open>int\<close>; with no member at all it reads outside the vector.\<close>

theorem raft_commit_is_reference:
  assumes "peers_ok r"
  shows "r_maybe_commit g r =
    (if r_prs r = [] then None
     else do { (b, l) \<leftarrow> rl_maybe_commit g (majority_index (peer_matches r)) (r_term r) (r_raftlog r);
               Some (b, r\<lparr>r_raftlog := l\<rparr>) })"
proof (cases "r_prs r = []")
  case True
  then show ?thesis by (simp add: r_maybe_commit_def sort_desc_def)
next
  case False
  then have "peer_matches r \<noteq> []" by (simp add: peer_matches_def)
  note pick = majority_index_pick [OF this]
  have "vec_at (sort_desc (peer_matches r)) (of_int (r_quorum r - 1)) = Some (majority_index (peer_matches r))"
    using False r_quorum_index [OF assms] pick
    by (cases "r_prs r") (simp_all add: vec_at_def majority_of_def peer_matches_def)
  with False show ?thesis by (simp add: r_maybe_commit_def peer_matches_def)
qed

theorem raft_commit_is_reference_witness:
  "r_maybe_commit (env_const 0) sample_raft = do { (b, l) \<leftarrow> rl_maybe_commit (env_const 0) (majority_index [5, 5, 3]) 14 sample_log;
     Some (b, sample_raft\<lparr>r_raftlog := l\<rparr>) }"
  using raft_commit_is_reference [OF sample_raft_ok(1), of "env_const 0"]
  by (simp add: peer_matches_def) (simp add: sample_defs)

text \<open>C3: Over any run of ticks and messages the commit index never goes down, and for every peer
  the acknowledged index and the next index never go down.\<close>

theorem raft_run_monotone:
  assumes "r_run g evs r = Some r'"
  shows "rl_committed (r_raftlog r) \<le> rl_committed (r_raftlog r')
    \<and> (\<forall>k p. om_find (r_prs r) k = Some p \<longrightarrow>
        (\<exists>p'. om_find (r_prs r') k = Some p' \<and> pr_match p \<le> pr_match p' \<and> pr_next p \<le> pr_next p'))"
  using r_run_le [OF assms] by (auto simp: raft_le_def rl_le_def pr_le_def dest: om_leD)

theorem raft_run_monotone_witness:
  "\<exists>r'. r_run (env_const 0) [EvTick] sample_raft = Some r' \<and> 3 \<le> rl_committed (r_raftlog r')"
  using raft_run_monotone [OF sample_tick] sample_tick by (simp add: sample_defs)

text \<open>No run of ticks and messages ever changes the term or the contents of the log: \<open>Reset\<close>
  drops the term it is given, \<open>Step\<close> only looks at the term of a message, and the function that
  appends a received batch is empty.\<close>

theorem raft_run_term_and_log_frozen:
  assumes "r_run g evs r = Some r'"
  shows "r_id r' = r_id r \<and> r_term r' = r_term r
    \<and> rl_storage (r_raftlog r') = rl_storage (r_raftlog r)
    \<and> rl_unstable (r_raftlog r') = rl_unstable (r_raftlog r)
    \<and> rl_applied (r_raftlog r') = rl_applied (r_raftlog r)"
  using r_run_le [OF assms] by (simp add: raft_le_def rl_le_def r_config_def)

theorem raft_run_term_and_log_frozen_witness:
  "\<exists>r'. r_run (env_const 0) [EvTick] sample_raft = Some r' \<and> r_term r' = 14"
  using raft_run_term_and_log_frozen [OF sample_tick] sample_tick by (simp add: sample_defs)

text \<open>The outgoing queue is append-only, every message that a run puts into it carries the
  node's own id as sender, and a vote that was recorded once is never overwritten.\<close>

theorem raft_run_outbox_and_votes:
  assumes "r_run g evs r = Some r'"
  shows "(\<exists>ms. r_msgs r' = r_msgs r @ ms \<and> (\<forall>m\<in>set ms. m_from m = r_id r))
    \<and> (\<forall>k v. om_find (r_votes r) k = Some v \<longrightarrow> om_find (r_votes r') k = Some v)"
  using r_run_le [OF assms] by (auto simp: raft_le_def dest: om_leD)

theorem raft_run_outbox_and_votes_witness:
  "\<exists>r'. r_run (env_const 0) [EvTick] sample_raft = Some r' \<and> om_find (r_votes r') 1 = Some True"
  using raft_run_outbox_and_votes [OF sample_tick] sample_tick by (simp add: sample_defs om_find_def)

text \<open>Whatever happened before, a node that once became follower has, after every further run,
  a step function, a tick function, a state and a leader that agree: it is leader in all four or
  in none. The two candidate states are never entered: a candidate calls itself follower.\<close>

theorem raft_run_roles_agree:
  assumes "r_run g evs (r_become_follower h t l r) = Some r'"
  shows "r_role_ok r' \<and> (r_state r' = StateLeader \<longleftrightarrow> r_step_func r' = Some StepLeader)
    \<and> r_state r' \<noteq> StateCandidate \<and> r_state r' \<noteq> StatePreCandidate"
proof -
  have "post (r_run g evs (r_become_follower h t l r)) r_role_ok"
    unfolding r_run_def by (rule raft_roles.run_keeps) (simp_all add: list.pred_True)
  from postD [OF this assms] show ?thesis by (auto simp: r_role_ok_def)
qed

theorem raft_run_roles_agree_witness:
  "\<exists>r'. r_run (env_const 0) [] (r_become_follower (env_const 0) 14 2 sample_raft) = Some r' \<and> r_role_ok r'"
  using raft_run_roles_agree [of "env_const 0" "[]" "env_const 0" 14 2 sample_raft]
  by (simp add: r_run_def)

text \<open>C9: Every event is a move of the role machine: leadership is reached from candidacy only, a
  leader only steps down to follower, and a follower never becomes leader in one event.\<close>

theorem raft_event_role_refinement:
  assumes "r_role_ok r" and "r_event g ev r = Some r'"
  shows "r_role_ok r' \<and> (\<exists>a b. r_step_func r = Some a \<and> r_step_func r' = Some b \<and> role_move a b)"
proof -
  have "moves_to r r'" using postD [OF r_event_moves [OF assms(1)] assms(2)] .
  moreover obtain a where "r_step_func r = Some a" using assms(1) by (auto simp: r_role_ok_def)
  ultimately show ?thesis by (auto simp: moves_to_def r_role_ok_def)
qed

theorem raft_event_role_refinement_witness:
  "\<exists>r'. r_event (env_const 0) (EvMsg (new_message\<lparr>m_type := MsgHup\<rparr>)) sample_raft = Some r'
    \<and> r_step_func r' = Some StepCandidate \<and> r_role_ok r'"
proof -
  let ?r = "r_step_hup (env_const 0) sample_raft"
  have run: "r_event (env_const 0) (EvMsg (new_message\<lparr>m_type := MsgHup\<rparr>)) sample_raft = Some ?r"
    by (simp add: r_event_def r_step_def)
  have "r_roles ?r = r_roles (r_become_candidate (env_const 0) sample_raft)"
    by (simp add: r_step_hup_def r_campaign_def read_bool_def r_poll_any_def roles.campaign)
      (simp add: sample_defs)
  then have "r_step_func ?r = Some StepCandidate" by (simp add: r_roles_eq)
  with raft_event_role_refinement [OF sample_role_ok(1) run] run show ?thesis by blast
qed


section \<open>Elections\<close>

lemma for_each_stay: "(\<And>g x. f g x s = Some s) \<Longrightarrow> for_each f g xs s = Some s"
  by (induction xs arbitrary: g) simp_all

lemma r_bcast_own_id [simp]:
  assumes "r_id r \<noteq> 0"
  shows "r_bcast_append g r = Some r" "r_bcast_heartbeat_with_ctx g ctx r = Some r"
  using assms by (simp_all add: r_bcast_append_def r_bcast_heartbeat_with_ctx_def r_for_each_progress_def for_each_stay)

lemma r_bcast_append_votes: "post (r_bcast_append g s) (\<lambda>t. r_votes t = r_votes s)"
proof -
  have send: "post (r_send_append g k u) (\<lambda>t. r_votes t = r_votes u)" for g k u
    by (auto simp: r_send_append_def prod.case_eq_if r_send_def r_get_progress_def intro!: postI)
  have each: "post (for_each (\<lambda>g peer r. if r_id r \<noteq> 0 then Some r else r_send_append g (r_id r) r) h ks u)
      (\<lambda>t. r_votes t = r_votes u)" for h ks u
    by (rule for_each_rel [where R = "\<lambda>u t. r_votes t = r_votes u"]) (auto simp: send)
  show ?thesis
    unfolding r_bcast_append_def r_for_each_progress_def post_bind Let_def
    using each by (rule post_mono) (rule post_mono [OF each], simp)
qed

lemma r_step_candidate_wins:
  assumes "r_step_candidate g msg r = Some (v, m, r')" and "r_step_func r = Some StepCandidate"
    and "r_step_func r' = Some StepLeader"
  shows "(m_type msg = MsgVoteResp \<or> m_type msg = MsgPreVoteResp)
    \<and> r_quorum r < indet_int (sub_call 0 g) + int (granted_votes (r_votes r'))"
proof -
  have votes: "r_votes y = r_votes (r_become_leader h t)" if "r_bcast_append h' (r_become_leader h t) = Some y" for h h' t y
    using postD [OF r_bcast_append_votes that] .
  have quorum: "r_quorum (t\<lparr>r_votes := vs\<rparr>) = r_quorum t" for t vs by (simp add: r_quorum_def)
  have lead: "r_votes (r_become_leader h t) = r_votes t" for h t
    by (simp add: r_become_leader_def r_reset_def r_reset_randomized_election_timeout_def)
  show ?thesis
    using assms
    by (auto simp: r_step_candidate_def r_poll_def int_add_def bind_eq_Some_conv quorum lead
        dest!: votes split: if_splits)
qed

lemma r_step_hup_step_func: "r_step_func (r_step_hup g r) = r_step_func r \<or> r_step_func (r_step_hup g r) = Some StepCandidate"
proof -
  have fold: "r_step_func (fold (\<lambda>x r. if fst x = r_id r then r else r_send (msg x) r) xs s) = r_step_func s" for msg xs s
    using roles.campaign [of msg xs s] by (simp add: r_roles_eq)
  show ?thesis by (simp add: r_step_hup_def r_campaign_def fold)
qed

lemma r_step_vote_step_func: "r_step_vote g msg r = Some r' \<Longrightarrow> r_step_func r' = r_step_func r"
  by (auto simp: r_step_vote_def bind_eq_Some_conv split: if_splits)

lemma r_step_wins:
  assumes "r_step g msg r = Some (v, m, r')" and "r_role_ok r"
    and "r_step_func r \<noteq> Some StepLeader" and "r_step_func r' = Some StepLeader"
  shows "r_step_func r = Some StepCandidate \<and> (m_type msg = MsgVoteResp \<or> m_type msg = MsgPreVoteResp)
    \<and> r_quorum r < indet_int (sub_call 0 g) + int (granted_votes (r_votes r'))"
proof -
  have "r_call_step_func g msg r = Some (v, m, r')"
    using assms r_step_hup_step_func [of g r]
    by (auto simp: r_step_def bind_eq_Some_conv dest: r_step_vote_step_func split: if_splits)
  moreover have "r_step_func r = Some StepCandidate"
    using assms postD [OF r_step_moves [OF assms(2)] assms(1)]
    by (auto simp: moves_to_def r_role_ok_def dest: role_move_leader)
  ultimately show ?thesis
    using r_step_candidate_wins [of g msg r v m r'] assms(4) by (simp add: r_call_step_func_def)
qed

text \<open>C8: A node becomes leader only while it handles a vote response as a candidate, and only when
  the result of \<open>Poll\<close>, which is the number of granted votes on top of what the uninitialised
  counter held, exceeds the quorum; no tick and no other message makes a leader.\<close>

theorem raft_leader_only_by_votes:
  assumes "r_event g ev r = Some r'" and "r_role_ok r"
    and "r_step_func r \<noteq> Some StepLeader" and "r_step_func r' = Some StepLeader"
  shows "r_step_func r = Some StepCandidate
    \<and> (\<exists>msg. ev = EvMsg msg \<and> (m_type msg = MsgVoteResp \<or> m_type msg = MsgPreVoteResp))
    \<and> r_quorum r < indet_int (sub_call 0 g) + int (granted_votes (r_votes r'))"
proof (cases ev)
  case EvTick
  with assms(1-3) have "r_tick_election g r = Some r'"
    by (auto simp: r_event_def r_tick_def r_role_ok_def)
  then have "r_step_func r' = r_step_func r \<or> r_step_func r' = Some StepCandidate"
    using r_step_hup_step_func [of g "r\<lparr>r_election_elapsed := 0\<rparr>"]
    by (auto simp: r_tick_election_def bind_eq_Some_conv r_step_def split: if_splits)
  with assms(3,4) show ?thesis by auto
next
  case (EvMsg msg)
  with assms(1) obtain v m where "r_step g msg r = Some (v, m, r')"
    by (auto simp: r_event_def bind_eq_Some_conv)
  from r_step_wins [OF this assms(2-4)] EvMsg show ?thesis by simp
qed


lemma sample_candidate_quorum: "r_quorum sample_candidate = 2"
  by (simp add: r_quorum_small majority_of_def) (simp add: sample_defs)

lemma sample_candidate_wins:
  "\<exists>r'. r_event (env_const 1) (EvMsg (new_message\<lparr>m_type := MsgVoteResp, m_from := 2\<rparr>)) sample_candidate = Some r'
    \<and> r_step_func r' = Some StepLeader"
proof -
  let ?c = "sample_candidate\<lparr>r_votes := [(1, True), (2, True)]\<rparr>"
  have q: "r_quorum ?c = 2" using sample_candidate_quorum by (simp add: r_quorum_def)
  have poll: "r_poll (env_const 1) 2 MsgVoteResp True sample_candidate = Some (3, ?c)"
    by (simp add: r_poll_def int_add_def int_max_def granted_votes_def count_if_def sample_defs om_find_def u64_order)
  have id: "r_id (r_become_leader (env_const 1) ?c) \<noteq> 0" "r_state ?c \<noteq> StatePreCandidate"
    by (simp_all add: r_become_leader_def r_reset_def r_reset_randomized_election_timeout_def sample_defs)
  have func: "r_step_func sample_candidate = Some StepCandidate" by (simp add: sample_defs)
  have "r_event (env_const 1) (EvMsg (new_message\<lparr>m_type := MsgVoteResp, m_from := 2\<rparr>)) sample_candidate
      = Some (r_become_leader (env_const 1) ?c)"
    using id by (simp add: r_event_def r_step_def r_call_step_func_def func r_step_candidate_def poll q
        new_message_def)
  then show ?thesis by simp
qed

theorem raft_leader_only_by_votes_witness:
  "\<exists>r'. r_event (env_const 1) (EvMsg (new_message\<lparr>m_type := MsgVoteResp, m_from := 2\<rparr>)) sample_candidate = Some r'
    \<and> 2 < 1 + int (granted_votes (r_votes r'))"
proof -
  have func: "r_step_func sample_candidate \<noteq> Some StepLeader" by (simp add: sample_defs)
  have i: "indet_int (sub_call 0 (env_const 1)) = 1" by simp
  from sample_candidate_wins obtain r' where
    "r_event (env_const 1) (EvMsg (new_message\<lparr>m_type := MsgVoteResp, m_from := 2\<rparr>)) sample_candidate = Some r'"
    "r_step_func r' = Some StepLeader" by blast
  with raft_leader_only_by_votes [OF this(1) sample_role_ok(3) func] show ?thesis
    unfolding i sample_candidate_quorum by blast
qed


lemma granted_votes_card:
  assumes "om_ok vs"
  shows "granted_votes vs = card {k. om_find vs k = Some True}"
proof -
  have "granted_votes vs = count_if (\<lambda>k. om_find vs k = Some True) (om_keys vs)"
    using om_mem_find [OF assms] by (auto simp: granted_votes_def count_if_def om_keys_def filter_map comp_def
        intro!: arg_cong [of _ _ length] filter_cong)
  also have "\<dots> = card {k \<in> set (om_keys vs). om_find vs k = Some True}"
    using count_if_card [OF om.keys_distinct [OF assms], of _ "\<lambda>k. k"] by simp
  also have "{k \<in> set (om_keys vs). om_find vs k = Some True} = {k. om_find vs k = Some True}"
    by (auto simp: set_om_keys)
  finally show ?thesis .
qed

text \<open>\<open>Poll\<close> records the first answer of a peer and ignores later ones, changes nothing else,
  and returns the number of peers whose recorded answer is a grant, added to what the
  uninitialised counter held.\<close>

theorem raft_poll_counts_first_answers:
  assumes "om_ok (r_votes r)" and "r_poll g peer t v r = Some (grant, r')"
  shows "r' = r\<lparr>r_votes := r_votes r'\<rparr> \<and> om_ok (r_votes r')
    \<and> (\<forall>k. om_find (r_votes r') k =
          (if k = peer \<and> om_find (r_votes r) k = None then Some v else om_find (r_votes r) k))
    \<and> grant = indet_int g + int (card {k. om_find (r_votes r') k = Some True})"
proof -
  let ?vs = "if om_find (r_votes r) peer = None then om_put peer v (r_votes r) else r_votes r"
  have r': "r' = r\<lparr>r_votes := ?vs\<rparr>" and grant: "grant = indet_int g + int (granted_votes ?vs)"
    using assms(2) by (auto simp: r_poll_def int_add_def split: if_splits)
  have ok: "om_ok ?vs" using assms(1) by (simp add: om_ok_put)
  have "granted_votes ?vs = card {k. om_find ?vs k = Some True}"
    using granted_votes_card [OF ok] .
  with r' grant ok show ?thesis by (auto simp: om_find_put)
qed


theorem raft_poll_counts_first_answers_witness:
  "\<exists>r'. r_poll (env_const 0) 2 MsgVoteResp False sample_raft = Some (1, r')
    \<and> 1 = int (card {k. om_find (r_votes r') k = Some True})"
proof -
  let ?r = "sample_raft\<lparr>r_votes := [(1, True), (2, False)]\<rparr>"
  have run: "r_poll (env_const 0) 2 MsgVoteResp False sample_raft = Some (1, ?r)"
    by (simp add: r_poll_def int_add_def int_max_def granted_votes_def count_if_def sample_defs om_find_def u64_order)
  have "om_ok (r_votes sample_raft)" by (simp add: om_ok_def om_keys_def sample_defs)
  from raft_poll_counts_first_answers [OF this run]
  have "1 = indet_int (env_const 0) + int (card {k. om_find (r_votes ?r) k = Some True})"
    by (elim conjE)
  then have "1 = int (card {k. om_find (r_votes ?r) k = Some True})" unfolding indet_int_env_const by simp
  with run show ?thesis by blast
qed

lemma r_campaign_fold:
  "fold (\<lambda>x r. if fst x = r_id r then r else r_send (msg x) r) xs r
    = r\<lparr>r_msgs := r_msgs r @ map (\<lambda>x. (msg x)\<lparr>m_from := r_id r\<rparr>) (filter (\<lambda>x. fst x \<noteq> r_id r) xs)\<rparr>"
  by (induction xs arbitrary: r) (auto simp: r_send_def)

section \<open>Votes\<close>

text \<open>Since the term never follows a request, a node grants its vote twice in one term: after
  two requests of the same higher term whose logs pass the comparison, the vote belongs to the
  second candidate.\<close>

theorem raft_votes_twice_in_a_term:
  assumes "\<not> r_is_learner r" and "r_term r < t"
    and "rl_is_up_to_date g (r_raftlog r) i t = Some True" and "rl_is_up_to_date h (r_raftlog r) j t = Some True"
  shows "\<exists>v1 m1 r1 v2 m2 r2.
      r_step g (new_message\<lparr>m_type := MsgVote, m_from := a, m_term := t, m_index := i\<rparr>) r = Some (v1, m1, r1)
    \<and> r_vote r1 = a
    \<and> r_step h (new_message\<lparr>m_type := MsgVote, m_from := b, m_term := t, m_index := j\<rparr>) r1 = Some (v2, m2, r2)
    \<and> r_vote r2 = b \<and> r_term r2 = r_term r"
  using assms by (simp add: r_step_def r_step_vote_def r_can_vote_def)

theorem raft_votes_twice_in_a_term_witness:
  "\<exists>v1 m1 r1 v2 m2 r2.
      r_step (env_const 2) (new_message\<lparr>m_type := MsgVote, m_from := 2, m_term := 15, m_index := 5\<rparr>) sample_raft
        = Some (v1, m1, r1) \<and> r_vote r1 = 2
    \<and> r_step (env_const 2) (new_message\<lparr>m_type := MsgVote, m_from := 3, m_term := 15, m_index := 5\<rparr>) r1
        = Some (v2, m2, r2) \<and> r_vote r2 = 3 \<and> r_term r2 = r_term sample_raft"
proof -
  have "\<not> r_is_learner sample_raft" "r_term sample_raft < 15"
    "rl_is_up_to_date (env_const 2) (r_raftlog sample_raft) 5 15 = Some True"
    by (simp_all add: rl_is_up_to_date_def rl_last_term_def sample_defs u64_order)
  from raft_votes_twice_in_a_term [OF this this(3)] show ?thesis .
qed


section \<open>Replication messages\<close>

definition append_response :: "message \<Rightarrow> raft \<Rightarrow> message" where
  "append_response msg r = new_message\<lparr>m_type := MsgAppResp, m_to := m_from msg, m_from := r_id r\<rparr>"

text \<open>
  What a node with an id sends: vote requests and answers to append requests.
\<close>

definition sends_only :: "message_type set \<Rightarrow> raft \<Rightarrow> raft \<Rightarrow> bool" where
  "sends_only T r r' \<longleftrightarrow> r_id r' = r_id r \<and>
     (r_id r \<noteq> 0 \<longrightarrow> (\<exists>ms. r_msgs r' = r_msgs r @ ms \<and> (\<forall>m\<in>set ms. m_type m \<in> T)))"

lemma sends_only_refl [simp]: "sends_only T r r"
  by (simp add: sends_only_def)

lemma sends_only_trans: "sends_only T r s \<Longrightarrow> sends_only T s t \<Longrightarrow> sends_only T r t"
  by (cases "r_id r = 0") (auto simp: sends_only_def)

lemma sends_only_send: "m_type x \<in> T \<Longrightarrow> sends_only T r s \<Longrightarrow> sends_only T r (r_send x s)"
  by (auto simp: sends_only_def r_send_def)

lemma sends_only_log [simp]: "sends_only T r (s\<lparr>r_raftlog := l\<rparr>) = sends_only T r s"
  by (simp add: sends_only_def)

definition r_outbox :: "raft \<Rightarrow> u64 \<times> message list" where
  "r_outbox r = (r_id r, r_msgs r)"

lemma sends_only_quiet: "r_outbox t = r_outbox s \<Longrightarrow> sends_only T s t"
  by (auto simp: sends_only_def r_outbox_def)

lemma r_outbox_simps [simp]:
  "r_outbox (snd (r_get_progress k s)) = r_outbox s"
  "r_outbox (r_set_progress ref p s) = r_outbox s"
  "r_outbox (r_become_follower g t l s) = r_outbox s"
  "r_outbox (r_become_candidate g s) = r_outbox s"
  "r_outbox (r_become_leader g s) = r_outbox s"
  "r_outbox (s\<lparr>r_raftlog := rl\<rparr>) = r_outbox s"
  "r_outbox (s\<lparr>r_votes := vs\<rparr>) = r_outbox s"
  "r_outbox (s\<lparr>r_lead := ld\<rparr>) = r_outbox s"
  "r_outbox (s\<lparr>r_vote := vt\<rparr>) = r_outbox s"
  "r_outbox (s\<lparr>r_election_elapsed := i\<rparr>) = r_outbox s"
  "r_outbox (s\<lparr>r_heartbeat_elapsed := j\<rparr>) = r_outbox s"
  by (auto simp: r_outbox_def r_get_progress_def r_set_progress_def r_become_follower_def
      r_become_candidate_def r_become_leader_def r_reset_def r_reset_randomized_election_timeout_def
      split: progress_ref.split)

interpretation outbox: raft_frame r_outbox
  by unfold_locales simp_all

lemma r_outbox_id: "r_outbox t = r_outbox s \<Longrightarrow> r_id t = r_id s"
  by (simp add: r_outbox_def)

lemma r_bcast_append_outbox:
  "r_bcast_append g t = Some u \<Longrightarrow> r_outbox t = r_outbox s \<Longrightarrow> r_id s \<noteq> 0 \<Longrightarrow> r_outbox u = r_outbox s"
  using r_outbox_id [of t s] by simp

lemma r_step_leader_local_outbox:
  assumes "r_id s \<noteq> 0"
  shows "post (r_step_leader_local g msg s) (\<lambda>x. r_outbox (snd (snd x)) = r_outbox s)"
proof (cases "m_type msg = MsgProp")
  case True
  then show ?thesis
    using assms by (auto simp: r_step_leader_local_def bind_eq_Some_conv prod.case_eq_if intro!: postI
        dest!: outbox.append_entry dest: r_bcast_append_outbox split: if_splits)
next
  case False
  then show ?thesis by (auto simp: r_step_leader_local_def split: message_type.split)
qed

lemma r_step_leader_peer_outbox:
  assumes "r_id s \<noteq> 0"
  shows "post (r_step_leader_peer g msg s) (\<lambda>x. r_outbox (snd (snd x)) = r_outbox s)"
proof (cases "m_type msg = MsgAppResp")
  case True
  show ?thesis
    using assms True by (auto simp: r_step_leader_peer_def bind_eq_Some_conv prod.case_eq_if intro!: postI
        dest!: outbox.maybe_commit outbox.progress_maybe_update dest: r_bcast_append_outbox split: if_splits)
next
  case False
  then show ?thesis by (auto simp: r_step_leader_peer_def prod.case_eq_if split: message_type.split)
qed


text \<open>The messages a node with an id puts into its queue.\<close>

abbreviation own_messages :: "message_type set" where
  "own_messages \<equiv> {MsgVote, MsgAppResp}"

lemma r_step_follower_sends: "post (r_step_follower g msg s) (\<lambda>x. sends_only own_messages s (snd (snd x)))"
proof -
  have quiet: "sends_only own_messages s t" if "r_outbox t = r_outbox s" for t
    using sends_only_quiet [OF that] .
  show ?thesis
  proof (cases "m_type msg = MsgApp")
    case True
    then show ?thesis
      by (auto simp: r_step_follower_def r_handle_append_entries_def bind_eq_Some_conv quiet
          intro!: postI sends_only_send split: if_splits)
  next
    case False
    then show ?thesis by (auto simp: r_step_follower_def split: message_type.split)
  qed
qed

lemma r_step_candidate_outbox:
  assumes "r_id s \<noteq> 0"
  shows "post (r_step_candidate g msg s) (\<lambda>x. r_outbox (snd (snd x)) = r_outbox s)"
  using assms
  by (auto simp: r_step_candidate_def r_poll_def bind_eq_Some_conv intro!: postI
      dest: r_bcast_append_outbox split: if_splits)

lemma r_step_leader_outbox:
  assumes "r_id s \<noteq> 0"
  shows "post (r_step_leader g msg s) (\<lambda>x. r_outbox (snd (snd x)) = r_outbox s)"
proof -
  have peer: "post (r_step_leader_peer h m t) (\<lambda>x. r_outbox (snd (snd x)) = r_outbox s)" if "r_outbox t = r_outbox s" for h m t
    using that assms r_outbox_id [OF that] by (intro post_mono [OF r_step_leader_peer_outbox]) auto
  then show ?thesis
    unfolding r_step_leader_def post_bind
    by (intro post_mono [OF r_step_leader_local_outbox [OF assms]]) (auto simp: prod.case_eq_if split: rv.split)
qed

lemma r_campaign_sends:
  "sends_only own_messages s t \<Longrightarrow>
   sends_only own_messages s (fold (\<lambda>x r. if fst x = r_id r then r
      else r_send (new_message\<lparr>m_term := trm, m_to := fst x, m_type := MsgVote\<rparr>) r) xs t)"
  by (induction xs arbitrary: t) (simp_all add: sends_only_send)

lemma r_step_hup_sends: "sends_only own_messages s (r_step_hup g s)"
proof -
  have "sends_only own_messages s (r_become_candidate h s)" for h
    by (rule sends_only_quiet) simp
  then show ?thesis by (simp add: r_step_hup_def r_campaign_def r_campaign_sends)
qed

lemma r_step_vote_outbox: "r_step_vote g msg s = Some t \<Longrightarrow> r_outbox t = r_outbox s"
  by (auto simp: r_step_vote_def bind_eq_Some_conv split: if_splits)

lemma r_step_sends: "post (r_step g msg s) (\<lambda>x. sends_only own_messages s (snd (snd x)))"
proof (cases "r_id s = 0")
  case True
  have "raft_le s (snd (snd x))" if "r_step g msg s = Some x" for x
    using postD [OF r_step_le that] .
  then have "r_id (snd (snd x)) = r_id s" if "r_step g msg s = Some x" for x
    using raft_le_id [of s "snd (snd x)"] that by simp
  with True show ?thesis by (intro postI) (simp add: sends_only_def)
next
  case False
  have quiet: "post mm (\<lambda>x. r_outbox (snd (snd x)) = r_outbox s) \<Longrightarrow>
      post mm (\<lambda>x. sends_only own_messages s (snd (snd x)))" for mm :: "(raft_error rv \<times> message \<times> raft) option"
    by (erule post_mono) (rule sends_only_quiet)
  from False show ?thesis
    by (auto simp: r_step_def r_call_step_func_def r_step_hup_sends r_step_follower_sends
        r_step_candidate_outbox r_step_leader_outbox
        intro!: postI [of "r_step_func s"] postI [of "r_step_vote _ _ _"] intro: quiet sends_only_quiet r_step_vote_outbox split: step_func.split)
qed

lemma r_step_sends_from:
  "r_outbox t = r_outbox s \<Longrightarrow> post (r_step g msg t) (\<lambda>x. sends_only own_messages s (snd (snd x)))"
  by (rule post_mono [OF r_step_sends]) (auto simp: sends_only_def r_outbox_def)


lemma r_tick_sends: "post (r_tick g s) (sends_only own_messages s)"
proof -
  have quiet: "sends_only own_messages s t" if "r_outbox t = r_outbox s" for t
    using sends_only_quiet [OF that] .
  have beat: "post (r_step h msg (t\<lparr>r_heartbeat_elapsed := k\<rparr>)) (\<lambda>x. sends_only own_messages s (snd (snd x)))"
    if "sends_only own_messages s t" for h msg t k
    by (rule post_mono [OF r_step_sends_from [of _ t]]) (auto intro: sends_only_trans that)
  show ?thesis
    unfolding r_tick_def r_tick_election_def r_tick_heartbeat_def
    by (auto simp: prod.case_eq_if quiet beat r_step_sends_from split: tick_func.split
        intro!: postI [of "int_inc _"] postI [of "r_tick_func s"];
        rule post_mono [OF r_step_sends_from], simp; auto simp: beat intro!: postI [of "int_inc _"])
qed

lemma r_event_sends: "post (r_event g ev s) (sends_only own_messages s)"
  by (auto simp: r_event_def prod.case_eq_if r_tick_sends r_step_sends split: raft_event.split)

interpretation raft_sends: ordered_machine r_event "sends_only own_messages"
  by unfold_locales (auto intro: sends_only_trans r_event_sends)

text \<open>C30: A node with an id never sends an append or a heartbeat message, in no run and in no role:
  the test for its own id in the two broadcasts is an assignment. All that it ever sends are
  vote requests and answers to append requests; no log entry is ever replicated by this path.\<close>

theorem raft_run_never_replicates:
  assumes "r_run g evs r = Some r'" and "r_id r \<noteq> 0"
  shows "\<exists>ms. r_msgs r' = r_msgs r @ ms \<and> (\<forall>m\<in>set ms. m_type m = MsgVote \<or> m_type m = MsgAppResp)"
  using postD [OF raft_sends.run_le assms(1) [unfolded r_run_def]] assms(2)
  by (auto simp: sends_only_def)

theorem raft_run_never_replicates_witness:
  "\<exists>r' ms. r_run (env_const 0) [EvTick] sample_raft = Some r' \<and> r_msgs r' = ms
    \<and> (\<forall>m\<in>set ms. m_type m = MsgVote \<or> m_type m = MsgAppResp)"
proof -
  have id: "r_id sample_raft \<noteq> 0" "r_msgs sample_raft = []" by (simp_all add: sample_defs)
  from raft_run_never_replicates [OF sample_tick id(1)] sample_tick id(2) show ?thesis by simp
qed


section \<open>Progress and proposals\<close>

text \<open>\<open>GetProgress\<close> never returns null: a known peer keeps its entry and nothing changes, an
  unknown sender is added to the learners with an empty progress. The null test of \<open>StepLeader\<close>
  can therefore not fail.\<close>

theorem raft_get_progress_total:
  "r_progress (fst (r_get_progress k r)) (snd (r_get_progress k r)) \<noteq> None
    \<and> r_prs (snd (r_get_progress k r)) = r_prs r
    \<and> (om_find (r_prs r) k = None \<and> om_find (r_learner_prs r) k = None \<longrightarrow>
        om_find (r_learner_prs (snd (r_get_progress k r))) k = Some new_progress)
    \<and> (om_find (r_prs r) k \<noteq> None \<or> om_find (r_learner_prs r) k \<noteq> None \<longrightarrow> snd (r_get_progress k r) = r)"
  using om_touch_present [of new_progress k "r_learner_prs r"]
  by (auto simp: r_get_progress_def r_progress_def om_find_touch om_touch_id)

theorem raft_get_progress_total_witness:
  "om_find (r_learner_prs (snd (r_get_progress 9 sample_raft))) 9 = Some new_progress"
proof -
  have "om_find (r_prs sample_raft) 9 = None" "om_find (r_learner_prs sample_raft) 9 = None"
    by (simp_all add: sample_defs om_find_def)
  with raft_get_progress_total [of 9 sample_raft] show ?thesis by blast
qed

text \<open>A leader refuses a proposal, with the error and without any effect, exactly when it is no
  member of the peers or a leadership transfer is in progress. An accepted proposal leaves the
  log's contents alone, and the caller's entries come back stamped with the leader's term and
  the positions after the last index.\<close>

theorem raft_proposal_outcome:
  assumes "r_step_func r = Some StepLeader" and "m_type msg = MsgProp" and "r_step g msg r = Some (v, m, r')"
  shows "(if om_find (r_prs r) (r_id r) = None \<or> r_lead_transferee r \<noteq> 0
     then v = Returns ErrProposalDropped \<and> m = msg \<and> r' = r
     else v = NoReturn \<and> (\<exists>li. rl_last_index (r_raftlog r) = Some li
       \<and> m = msg\<lparr>m_entries := stamp_entries (r_term r) (li + 1) (m_entries msg)\<rparr>)
       \<and> rl_unstable (r_raftlog r') = rl_unstable (r_raftlog r))"
proof -
  from assms have run: "r_step_leader g msg r = Some (v, m, r')"
    by (simp add: r_step_def r_call_step_func_def)
  have le: "raft_le r r'" using postD [OF r_step_leader_le run] by simp
  show ?thesis
  proof (cases "om_find (r_prs r) (r_id r) = None \<or> r_lead_transferee r \<noteq> 0")
    case True
    with run assms(2) show ?thesis by (auto simp: r_step_leader_def r_step_leader_local_def split: if_splits)
  next
    case False
    with run assms(2) show ?thesis
      using le by (auto simp: r_step_leader_def r_step_leader_local_def r_step_leader_peer_def
          r_append_entry_def bind_eq_Some_conv prod.case_eq_if raft_le_def rl_le_def)
  qed
qed

theorem raft_proposal_outcome_witness:
  "r_step (env_const 0) (new_message\<lparr>m_type := MsgProp\<rparr>) (sample_leader\<lparr>r_lead_transferee := 2\<rparr>)
    = Some (Returns ErrProposalDropped, new_message\<lparr>m_type := MsgProp\<rparr>, sample_leader\<lparr>r_lead_transferee := 2\<rparr>)"
proof -
  let ?r = "sample_leader\<lparr>r_lead_transferee := 2\<rparr>" and ?m = "new_message\<lparr>m_type := MsgProp\<rparr>"
  have r: "r_step_func ?r = Some StepLeader" "r_lead_transferee ?r \<noteq> 0" by (simp_all add: sample_defs)
  have "\<exists>v m r'. r_step (env_const 0) ?m ?r = Some (v, m, r')"
    by (simp add: r_step_def r_call_step_func_def r_step_leader_def r_step_leader_local_def sample_defs om_find_def)
  then obtain v m r' where run: "r_step (env_const 0) ?m ?r = Some (v, m, r')" by blast
  have "m_type ?m = MsgProp" by simp
  from raft_proposal_outcome [OF r(1) this run] r(2) run show ?thesis by simp
qed


section \<open>Timers\<close>

lemma sint_ucast_small:
  fixes w :: u64
  assumes "unat w < 2147483648"
  shows "sint (ucast w :: 32 word) = int (unat w)"
proof -
  have "(ucast w :: 32 word) = of_nat (unat w)" by simp
  then show ?thesis by (simp only: sint_of_nat_32 [OF assms])
qed

text \<open>With a random number generator that keeps its documented range, every reset of the
  randomized election timeout takes a value in the interval \<open>[timeout, 2 * timeout - 1]\<close> that
  the header promises, and changes nothing else.\<close>

theorem raft_randomized_timeout_range:
  assumes "rand_ok g" and "0 < r_election_timeout r" and "2 * r_election_timeout r \<le> int_max"
  shows "\<exists>d. r_reset g t r = r\<lparr>r_randomized_election_timeout := d\<rparr>
    \<and> r_election_timeout r \<le> d \<and> d \<le> 2 * r_election_timeout r - 1"
proof -
  define n where "n = nat (r_election_timeout r)"
  define e where "e = (of_int (r_election_timeout r) :: u64)"
  have n: "r_election_timeout r = int n" "0 < n" "2 * n < 2147483648"
    using assms(2,3) by (auto simp: n_def int_max_def)
  then have e: "unat e = n" by (simp add: e_def)
  have "0 < e" using e n by (simp add: u64_order)
  define k where "k = unat (rand_below g e)"
  from rand_ok_below [OF assms(1) \<open>0 < e\<close>] have lt: "k < n" using e by (simp add: u64_order k_def)
  then have sum: "unat (e + rand_below g e) = n + k"
    using e n by (subst unat_add_u64) (auto simp: k_def)
  have small: "unat (e + rand_below g e) < 2147483648" using sum lt n by simp
  have "r_reset g t r = r\<lparr>r_randomized_election_timeout := int (n + k)\<rparr>"
    unfolding r_reset_def r_reset_randomized_election_timeout_def Let_def e_def [symmetric]
    by (simp only: sint_ucast_small [OF small] sum)
  with n lt show ?thesis by (intro exI [of _ "int (n + k)"]) simp
qed

theorem raft_randomized_timeout_range_witness:
  "\<exists>d. r_reset (env_const 0) 14 sample_raft = sample_raft\<lparr>r_randomized_election_timeout := d\<rparr> \<and> 3 \<le> d \<and> d \<le> 5"
proof -
  have et: "r_election_timeout sample_raft = 3" by (simp add: sample_defs)
  show ?thesis
    using raft_randomized_timeout_range [of "env_const 0" sample_raft 14] by (simp add: et int_max_def)
qed

lemma r_election_wait:
  assumes "r_tick_func r = Some TickElection" and "r_randomized_election_timeout r \<le> int_max"
    and "r_election_elapsed r + int k < r_randomized_election_timeout r"
  shows "r_run g (replicate k EvTick) r = Some (r\<lparr>r_election_elapsed := r_election_elapsed r + int k\<rparr>)"
  using assms
proof (induction k arbitrary: g r)
  case 0
  then show ?case by (simp add: r_run_def)
next
  case (Suc k)
  let ?s = "r\<lparr>r_election_elapsed := r_election_elapsed r + 1\<rparr>"
  have "r_event (sub_call 0 g) EvTick r = Some ?s"
    using Suc.prems by (simp add: r_event_def r_tick_def r_tick_election_def r_past_election_timeout_def
        int_inc_def int_add_def)
  moreover have "r_run (sub_call 1 g) (replicate k EvTick) ?s = Some (?s\<lparr>r_election_elapsed := r_election_elapsed ?s + int k\<rparr>)"
    using Suc.prems by (intro Suc.IH) simp_all
  ultimately show ?case by (simp add: r_run_def algebra_simps)
qed

lemma r_run_append:
  "r_run g (replicate k EvTick @ evs) r =
    Option.bind (r_run g (replicate k EvTick) r) (r_run ((sub_call 1 ^^ k) g) evs)"
  unfolding r_run_def
proof (induction k arbitrary: g r)
  case (Suc k)
  then show ?case by (cases "r_event (sub_call 0 g) EvTick r") (simp_all add: funpow_swap1)
qed simp

text \<open>The two local messages of the leader's tick.\<close>

lemma r_step_leader_check_quorum:
  assumes "r_step_func s = Some StepLeader" and "m_type msg = MsgCheckQuorum"
  shows "\<exists>u. (u = s \<or> (\<exists>h. u = r_become_follower h (r_term s) 0 s))
    \<and> r_step g msg s = Some (NoReturn, msg, snd (r_get_progress (m_from msg) u))"
  using assms by (auto simp: r_step_def r_call_step_func_def r_step_leader_def r_step_leader_local_def
      r_step_leader_peer_def prod.case_eq_if)

lemma r_step_leader_beat:
  assumes "r_step_func s = Some StepLeader" and "m_type msg = MsgBeat"
  shows "r_step g msg s = Some (NoReturn, msg, snd (r_get_progress (m_from msg) s))"
  using assms by (simp add: r_step_def r_call_step_func_def r_step_leader_def r_step_leader_local_def
      r_step_leader_peer_def prod.case_eq_if)

definition r_timers :: "raft \<Rightarrow> int \<times> int \<times> message list" where
  "r_timers r = (r_heartbeat_elapsed r, r_heartbeat_timeout r, r_msgs r)"

lemma r_timers_simps [simp]:
  "r_timers (snd (r_get_progress k s)) = r_timers s"
  "r_timers (r_become_follower g t l s) = r_timers s"
  "r_timers (s\<lparr>r_election_elapsed := i\<rparr>) = r_timers s"
  by (auto simp: r_timers_def r_get_progress_def r_become_follower_def r_reset_def
      r_reset_randomized_election_timeout_def)

lemma r_check_quorum_timers:
  assumes "r_step_func s = Some StepLeader" and "m_type msg = MsgCheckQuorum"
  shows "post (r_step g msg s) (\<lambda>x. r_timers (snd (snd x)) = r_timers s)"
  using r_step_leader_check_quorum [OF assms, of g] by auto


text \<open>The two halves of the leader's tick: the check of the quorum and the heartbeat.\<close>

definition leader_check :: "env \<Rightarrow> raft \<Rightarrow> raft option" where
  "leader_check g r =
     (if r_election_timeout r < r_election_elapsed r then do {
        let r = r\<lparr>r_election_elapsed := 0\<rparr>;
        if r_check_quorum r then do {
          (_, _, r) \<leftarrow> r_step (sub_call 0 g) (new_message\<lparr>m_type := MsgCheckQuorum, m_from := r_id r\<rparr>) r;
          Some r
        }
        else Some r
      }
      else Some r)"

definition leader_beat :: "env \<Rightarrow> raft \<Rightarrow> raft option" where
  "leader_beat g r =
     (if r_state r \<noteq> StateLeader then Some r
      else if r_heartbeat_timeout r < r_heartbeat_elapsed r then do {
        k \<leftarrow> int_inc (r_heartbeat_elapsed r);
        let r = r\<lparr>r_heartbeat_elapsed := k\<rparr>;
        (_, _, r) \<leftarrow> r_step (sub_call 1 g) (new_message\<lparr>m_type := MsgBeat, m_from := r_id r\<rparr>) r;
        Some r
      }
      else Some r)"

lemma r_tick_heartbeat_halves:
  "r_tick_heartbeat g r = do {
     n \<leftarrow> int_inc (r_election_elapsed r);
     k \<leftarrow> int_inc (r_heartbeat_elapsed r);
     t \<leftarrow> leader_check g (r\<lparr>r_election_elapsed := n, r_heartbeat_elapsed := k\<rparr>);
     leader_beat g t
   }"
  by (simp add: r_tick_heartbeat_def leader_check_def leader_beat_def)

lemma leader_check_keeps:
  assumes "r_role_ok r" and "r_step_func r = Some StepLeader"
  shows "post (leader_check g r) (\<lambda>t. r_timers t = r_timers r \<and> r_role_ok t)"
proof -
  let ?s = "r\<lparr>r_election_elapsed := 0\<rparr>"
  have ok: "r_role_ok ?s" using moves_to_ok [OF moves_to_same [OF assms(1), of ?s]] by simp
  have "post (r_step h (new_message\<lparr>m_type := MsgCheckQuorum, m_from := k\<rparr>) ?s)
      (\<lambda>x. r_timers (snd (snd x)) = r_timers r \<and> r_role_ok (snd (snd x)))" for h k
    using r_check_quorum_timers [of ?s "new_message\<lparr>m_type := MsgCheckQuorum, m_from := k\<rparr>" h] assms(2)
      post_mono [OF r_step_moves [OF ok] moves_to_ok]
    by (intro post_conj) simp_all
  with ok assms(1) show ?thesis by (simp add: leader_check_def prod.case_eq_if)
qed

text \<open>The leader's tick sends nothing, and it never restarts the heartbeat counter: every tick
  adds one, and a second one once the counter has passed the heartbeat timeout. From then on
  every tick of a leader takes the heartbeat branch, until the counter overflows.\<close>

theorem raft_leader_tick_counts_up:
  assumes "r_role_ok r" and "r_state r = StateLeader" and "r_tick g r = Some r'"
  shows "r_msgs r' = r_msgs r \<and> r_heartbeat_elapsed r' = r_heartbeat_elapsed r +
    (if r_state r' = StateLeader \<and> r_heartbeat_timeout r < r_heartbeat_elapsed r + 1 then 2 else 1)"
proof -
  let ?e = "r_heartbeat_elapsed r"
  from assms(1,2) have func: "r_step_func r = Some StepLeader" "r_tick_func r = Some TickHeartbeat"
    by (auto simp: r_role_ok_def)
  let ?s = "\<lambda>n. r\<lparr>r_election_elapsed := n, r_heartbeat_elapsed := ?e + 1\<rparr>"
  have ok: "r_role_ok (?s n)" for n using moves_to_ok [OF moves_to_same [OF assms(1), of "?s n"]] by simp
  from assms(3) func obtain n t where t: "leader_check g (?s n) = Some t"
    and rest: "leader_beat g t = Some r'"
    by (auto simp: r_tick_def r_tick_heartbeat_halves bind_eq_Some_conv int_inc_def int_add_def split: if_splits)
  from postD [OF leader_check_keeps [OF ok] t] func have
    "r_timers t = r_timers (?s n)" and role: "r_role_ok t" by simp_all
  then have tm: "r_heartbeat_elapsed t = ?e + 1" "r_heartbeat_timeout t = r_heartbeat_timeout r" "r_msgs t = r_msgs r"
    by (simp_all add: r_timers_def)
  show ?thesis
  proof (cases "r_state t = StateLeader \<and> r_heartbeat_timeout r < ?e + 1")
    case True
    with role have "r_step_func (t\<lparr>r_heartbeat_elapsed := 2 + ?e\<rparr>) = Some StepLeader" by (auto simp: r_role_ok_def)
    from r_step_leader_beat [OF this] rest True tm
    have "r' = snd (r_get_progress (r_id t) (t\<lparr>r_heartbeat_elapsed := 2 + ?e\<rparr>))"
      by (auto simp: leader_beat_def int_inc_def int_add_def split: if_splits)
    with True tm show ?thesis by (auto simp: r_get_progress_def)
  next
    case False
    with rest tm have "r' = t" by (auto simp: leader_beat_def split: if_splits)
    with False tm show ?thesis by auto
  qed
qed


theorem raft_leader_tick_counts_up_witness:
  "\<exists>r'. r_tick (env_const 1) sample_leader = Some r' \<and> r_msgs r' = [] \<and> r_heartbeat_elapsed r' = 1"
proof -
  let ?r = "sample_leader\<lparr>r_election_elapsed := 1, r_heartbeat_elapsed := 1\<rparr>"
  have run: "r_tick (env_const 1) sample_leader = Some ?r"
    by (simp add: r_tick_def r_tick_heartbeat_halves leader_check_def leader_beat_def int_inc_def int_add_def
        int_max_def sample_defs)
  have "r_state sample_leader = StateLeader" by (simp add: sample_defs)
  from raft_leader_tick_counts_up [OF sample_role_ok(2) this run] run show ?thesis
    by (simp add: sample_defs)
qed

end
