(* ===== verification/Raft_Types.thy ===== *)
theory Raft_Types
  imports Raft_Properties
begin

text \<open>
  The data type invariant of the \<open>Raft\<close> class: what the containers and the outgoing queue
  hold, whatever the run. It rests on the order and the role invariant of \<open>Raft_Invariants\<close>.
\<close>

text \<open>
  The maps are maps (ascending keys), no id is both a voter and a learner, the outgoing
  messages carry the own id, and the role fields agree.
\<close>

definition raft_typed :: "raft \<Rightarrow> bool" where
  "raft_typed r \<longleftrightarrow> om_ok (r_prs r) \<and> om_ok (r_learner_prs r) \<and> om_ok (r_votes r)
     \<and> set (om_keys (r_prs r)) \<inter> set (om_keys (r_learner_prs r)) = {}
     \<and> (\<forall>m\<in>set (r_msgs r). m_from m = r_id r) \<and> r_role_ok r"

lemma raft_le_prs_keys:
  assumes "raft_le r r'" and "om_ok (r_prs r)"
  shows "om_keys (r_prs r') = om_keys (r_prs r)"
proof (rule strict_sorted_equal)
  show "sorted_wrt (<) (om_keys (r_prs r'))" "sorted_wrt (<) (om_keys (r_prs r))"
    using assms by (simp_all add: raft_le_def om_le_def om_ok_def)
  have "om_find (r_prs r') k \<noteq> None \<longleftrightarrow> om_find (r_prs r) k \<noteq> None" for k
    using assms(1) by (auto simp: raft_le_def dest: om_leD)
  then show "set (om_keys (r_prs r')) = set (om_keys (r_prs r))"
    by (auto simp: set_om_keys)
qed

lemma raft_le_learners:
  assumes "raft_le r r'" and "k \<in> set (om_keys (r_learner_prs r'))"
  shows "k \<in> set (om_keys (r_learner_prs r)) \<or> k \<notin> set (om_keys (r_prs r))"
  using assms by (simp add: raft_le_def set_om_keys)

lemma raft_le_disjoint:
  assumes "raft_le r r'" and "set (om_keys (r_prs r)) \<inter> set (om_keys (r_learner_prs r)) = {}"
  shows "set (om_keys (r_prs r')) \<inter> set (om_keys (r_learner_prs r')) = {}"
proof -
  have "set (om_keys (r_prs r')) \<subseteq> set (om_keys (r_prs r))"
    using assms(1) by (auto simp: raft_le_def set_om_keys)
  then show ?thesis
    using assms(2) raft_le_learners [OF assms(1)] by blast
qed

lemma raft_le_typed:
  assumes "raft_le r r'" and "raft_typed r" and "r_role_ok r'"
  shows "raft_typed r'"
proof -
  have "m_from m = r_id r'" if "m \<in> set (r_msgs r')" for m
    using assms(1,2) that raft_le_id [OF assms(1)] by (auto simp: raft_le_def raft_typed_def)
  then show ?thesis
    using assms raft_le_disjoint [OF assms(1)] by (simp add: raft_typed_def raft_le_def om_le_def)
qed

lemma r_event_typed: "raft_typed r \<Longrightarrow> post (r_event g ev r) raft_typed"
proof -
  assume typed: "raft_typed r"
  then have "post (r_event g ev r) (\<lambda>x. raft_le r x \<and> moves_to r x)"
    by (intro post_conj r_event_le r_event_moves) (simp add: raft_typed_def)
  then show ?thesis
    by (rule post_mono) (blast intro: raft_le_typed [OF _ typed] moves_to_ok)
qed

interpretation raft_types: invariant_machine r_event "\<lambda>_. True" raft_typed
  by unfold_locales (rule r_event_typed)

text \<open>C4: The containers of the raft object stay what their types promise, over every run of
  ticks and messages: the three maps keep ascending and distinct keys, the members stay the
  members, no id becomes both a member and a learner (although \<open>GetProgress\<close> adds learners on
  every lookup of an unknown id), every queued message carries the own id and the role fields
  agree.\<close>

theorem raft_run_keeps_types:
  assumes "r_run g evs r = Some r'" and "raft_typed r"
  shows "raft_typed r' \<and> om_keys (r_prs r') = om_keys (r_prs r) \<and> r_id r' = r_id r"
proof -
  note run = assms(1) [unfolded r_run_def]
  have le: "raft_le r r'" by (rule postD [OF raft_run.run_le run])
  have "raft_typed r'"
    using postD [OF raft_types.run_keeps run] assms(2) by (simp add: list.pred_True)
  with le assms(2) show ?thesis
    by (simp add: raft_le_prs_keys raft_typed_def raft_le_id)
qed

lemma sample_ack:
  "r_run (env_const 0) [EvMsg (new_message\<lparr>m_type := MsgHeartbeatResp, m_from := 9\<rparr>)] sample_leader
    = Some (sample_leader\<lparr>r_learner_prs := [(9, new_progress)]\<rparr>)"
  by (simp add: r_run_def r_event_def r_step_def r_call_step_func_def r_step_leader_def
      r_step_leader_local_def r_step_leader_peer_def r_get_progress_def om_find_def om_touch_def sample_defs)

theorem raft_run_keeps_types_witness:
  "raft_typed (sample_leader\<lparr>r_learner_prs := [(9, new_progress)]\<rparr>)"
proof -
  have "raft_typed sample_leader"
    using sample_raft_ok(2) sample_role_ok(2)
    by (simp add: raft_typed_def peers_ok_def) (simp add: sample_defs om_ok_def om_keys_def)
  from raft_run_keeps_types [OF sample_ack this] show ?thesis by simp
qed

end
