(* ===== verification/Raft_Timers.thy ===== *)
theory Raft_Timers
  imports Raft_Types
begin

text \<open>
  The timers of the \<open>Raft\<close> class over whole runs: the election timer stays between 0 and twice
  the election timeout, so that it never overflows; the heartbeat timer of a leader and the
  election timer of a node that may not campaign only count up, and do overflow.
\<close>

section \<open>The election timer\<close>

definition r_clock :: "raft \<Rightarrow> int \<times> int \<times> int" where
  "r_clock r = (r_election_elapsed r, r_randomized_election_timeout r, r_election_timeout r)"

text \<open>What holds of the timer between two events.\<close>

definition clock_ok :: "raft \<Rightarrow> bool" where
  "clock_ok r \<longleftrightarrow> 0 < r_election_timeout r \<and> 2 * r_election_timeout r \<le> int_max
     \<and> r_election_timeout r \<le> r_randomized_election_timeout r
     \<and> r_randomized_election_timeout r < 2 * r_election_timeout r
     \<and> 0 \<le> r_election_elapsed r \<and> r_election_elapsed r < 2 * r_election_timeout r"

lemma clock_ok_same: "r_clock t = r_clock s \<Longrightarrow> clock_ok t = clock_ok s"
  by (simp add: r_clock_def clock_ok_def)

lemma clock_ok_restart: "clock_ok s \<Longrightarrow> clock_ok (s\<lparr>r_election_elapsed := 0\<rparr>)"
  by (simp add: clock_ok_def)

lemma r_clock_simps [simp]:
  "r_clock (r_send m s) = r_clock s"
  "r_clock (snd (r_get_progress k s)) = r_clock s"
  "r_clock (r_set_progress ref p s) = r_clock s"
  "r_clock (s\<lparr>r_raftlog := l\<rparr>) = r_clock s"
  "r_clock (s\<lparr>r_votes := vs\<rparr>) = r_clock s"
  "r_clock (s\<lparr>r_vote := v\<rparr>) = r_clock s"
  "r_clock (s\<lparr>r_lead := ld\<rparr>) = r_clock s"
  "r_clock (s\<lparr>r_state := st\<rparr>) = r_clock s"
  "r_clock (s\<lparr>r_step_func := f\<rparr>) = r_clock s"
  "r_clock (s\<lparr>r_tick_func := h\<rparr>) = r_clock s"
  "r_clock (s\<lparr>r_heartbeat_elapsed := i\<rparr>) = r_clock s"
  by (auto simp: r_clock_def r_send_def r_get_progress_def r_set_progress_def split: progress_ref.split)

lemmas clock_ok_simps [simp] = r_clock_simps [THEN clock_ok_same]

interpretation clock: raft_frame_send r_clock
  by unfold_locales simp_all

text \<open>The three changes of role draw a new timeout.\<close>

lemma r_reset_clock: "rand_ok g \<Longrightarrow> clock_ok s \<Longrightarrow> clock_ok (r_reset g t s)"
  using raft_randomized_timeout_range [of g s t] by (fastforce simp: clock_ok_def)

lemma r_become_clock:
  assumes "rand_ok g" and "clock_ok s"
  shows "clock_ok (r_become_follower g t l s)" "clock_ok (r_become_candidate g s)" "clock_ok (r_become_leader g s)"
  using assms by (simp_all add: r_become_follower_def r_become_candidate_def r_become_leader_def r_reset_clock)

section \<open>Steps\<close>

lemma r_step_follower_clock: "clock_ok s \<Longrightarrow> post (r_step_follower g msg s) (\<lambda>x. clock_ok (snd (snd x)))"
proof (cases "m_type msg = MsgApp")
  case True
  assume ok: "clock_ok s"
  let ?s = "s\<lparr>r_election_elapsed := 0, r_lead := m_from msg\<rparr>"
  have start: "clock_ok ?s" using clock_ok_restart [OF ok] by (simp add: clock_ok_def)
  have "clock_ok t" if "r_handle_append_entries g msg ?s = Some t" for t
    using clock_ok_same [OF clock.handle_append_entries [OF that]] start by blast
  with True show ?thesis by (auto simp: r_step_follower_def intro!: postI)
next
  case False
  assume "clock_ok s"
  with False show ?thesis by (auto simp: r_step_follower_def split: message_type.split)
qed

lemma r_step_candidate_clock:
  assumes "rand_ok g" and "clock_ok s"
  shows "post (r_step_candidate g msg s) (\<lambda>x. clock_ok (snd (snd x)))"
proof -
  have sub: "rand_ok (sub_call k g)" for k using assms(1) by (rule rand_ok_sub_call)
  have poll: "post (r_poll h k ty v s) (\<lambda>x. clock_ok (snd x))" for h k ty v
    using clock_ok_same [OF clock.poll] assms(2) by (blast intro: postI)
  have lead: "post (r_bcast_append h t) clock_ok" if "clock_ok t" for h t
    using clock_ok_same [OF clock.bcast_append] that by (blast intro: postI)
  show ?thesis
    unfolding r_step_candidate_def
    by (auto simp: assms(2) sub r_become_clock lead intro!: post_mono [OF poll])
qed

lemma r_step_leader_local_clock:
  assumes "rand_ok g" and "clock_ok s"
  shows "post (r_step_leader_local g msg s) (\<lambda>x. clock_ok (snd (snd x)))"
proof (cases "m_type msg = MsgProp")
  case True
  have "clock_ok v" if "r_append_entry h es s = Some (es', u)" "r_bcast_append h' u = Some v" for h h' es es' u v
    using clock_ok_same [of v s] clock.append_entry [OF that(1)] clock.bcast_append [OF that(2)] assms(2) by simp
  with True assms(2) show ?thesis
    by (auto simp: r_step_leader_local_def bind_eq_Some_conv intro!: postI split: if_splits)
next
  case False
  with assms show ?thesis
    by (auto simp: r_step_leader_local_def r_become_clock rand_ok_sub_call split: message_type.split)
qed

lemma r_step_leader_clock:
  assumes "rand_ok g" and "clock_ok s"
  shows "post (r_step_leader g msg s) (\<lambda>x. clock_ok (snd (snd x)))"
proof -
  have peer: "post (r_step_leader_peer h m t) (\<lambda>x. clock_ok (snd (snd x)))" if "clock_ok t" for h m t
    using clock.step_leader_peer by (rule post_mono) (use clock_ok_same that in blast)
  have sub: "rand_ok (sub_call k g)" for k using assms(1) by (rule rand_ok_sub_call)
  show ?thesis
    unfolding r_step_leader_def post_bind
    by (intro post_mono [OF r_step_leader_local_clock [OF sub assms(2)]])
      (auto simp: prod.case_eq_if peer split: rv.split)
qed

lemma r_step_hup_clock: "rand_ok g \<Longrightarrow> clock_ok s \<Longrightarrow> clock_ok (r_step_hup g s)"
  by (simp add: r_step_hup_def r_campaign_def r_become_clock rand_ok_sub_call clock_ok_same [OF clock.campaign])

lemma r_step_vote_clock: "clock_ok s \<Longrightarrow> post (r_step_vote g msg s) clock_ok"
  by (auto simp: r_step_vote_def clock_ok_def intro!: postI split: if_splits)

lemma r_step_clock:
  assumes "rand_ok g" and "clock_ok s"
  shows "post (r_step g msg s) (\<lambda>x. clock_ok (snd (snd x)))"
  using assms
  by (auto simp: r_step_def r_call_step_func_def r_step_hup_clock r_step_vote_clock r_step_follower_clock
      r_step_candidate_clock r_step_leader_clock split: step_func.split intro!: postI [of "r_step_func s"])

section \<open>Ticks and runs\<close>

lemma r_tick_election_clock:
  assumes "rand_ok g" and "clock_ok s" and "r_promotable s"
  shows "post (r_tick_election g s) clock_ok"
proof (rule postI)
  fix t
  assume tick: "r_tick_election g s = Some t"
  let ?n = "r_election_elapsed s + 1"
  show "clock_ok t"
  proof (cases "r_randomized_election_timeout s \<le> ?n")
    case True
    with tick assms(3) obtain x where x: "r_step g (new_message\<lparr>m_type := MsgHup, m_from := r_id s\<rparr>)
        (s\<lparr>r_election_elapsed := 0\<rparr>) = Some x" "t = snd (snd x)"
      by (auto simp: r_tick_election_def r_past_election_timeout_def r_promotable_def bind_eq_Some_conv
          int_inc_def int_add_def split: if_splits)
    show ?thesis
      using postD [OF r_step_clock [OF assms(1) clock_ok_restart [OF assms(2)]] x(1)] x(2) by simp
  next
    case False
    with tick have "t = s\<lparr>r_election_elapsed := ?n\<rparr>"
      by (auto simp: r_tick_election_def r_past_election_timeout_def bind_eq_Some_conv int_inc_def int_add_def
          split: if_splits)
    with False assms(2) show ?thesis by (simp add: clock_ok_def)
  qed
qed

lemma leader_check_clock:
  assumes "rand_ok g" and "0 \<le> r_election_elapsed s" and "clock_ok (s\<lparr>r_election_elapsed := 0\<rparr>)"
  shows "post (leader_check g s) clock_ok"
proof -
  have sub: "rand_ok (sub_call k g)" for k using assms(1) by (rule rand_ok_sub_call)
  have "clock_ok s" if "r_election_elapsed s \<le> r_election_timeout s"
    using that assms(2,3) by (simp add: clock_ok_def)
  with r_step_clock [OF sub assms(3)] assms(3) show ?thesis
    by (simp add: leader_check_def prod.case_eq_if)
qed

lemma leader_beat_clock:
  assumes "rand_ok g" and "clock_ok s"
  shows "post (leader_beat g s) clock_ok"
proof -
  have sub: "rand_ok (sub_call k g)" for k using assms(1) by (rule rand_ok_sub_call)
  have "clock_ok (s\<lparr>r_heartbeat_elapsed := k\<rparr>)" for k using assms(2) by simp
  from r_step_clock [OF sub this] assms(2) show ?thesis
    by (auto simp: leader_beat_def prod.case_eq_if intro!: postI [of "int_inc _"])
qed

lemma r_tick_heartbeat_clock:
  assumes "rand_ok g" and "clock_ok s"
  shows "post (r_tick_heartbeat g s) clock_ok"
proof -
  have "post (leader_check g (s\<lparr>r_election_elapsed := n, r_heartbeat_elapsed := k\<rparr>)) clock_ok" if "0 \<le> n" for n k
    using assms that by (intro leader_check_clock) (simp_all add: clock_ok_def)
  then have "post (leader_check g (s\<lparr>r_election_elapsed := n, r_heartbeat_elapsed := k\<rparr>) \<bind> leader_beat g) clock_ok"
    if "0 \<le> n" for n k
    unfolding post_bind using that by (blast intro: post_mono leader_beat_clock [OF assms(1)])
  moreover have "0 \<le> r_election_elapsed s + 1" using assms(2) by (simp add: clock_ok_def)
  ultimately show ?thesis
    by (auto simp: r_tick_heartbeat_halves int_inc_def int_add_def simp del: post_bind intro!: postI [of "int_inc _"])
qed

lemma r_event_clock:
  assumes "rand_ok g" and "clock_ok s" and "r_promotable s"
  shows "post (r_event g ev s) clock_ok"
proof (cases ev)
  case EvTick
  have "post (r_tick g s) clock_ok"
    using r_tick_election_clock [OF assms] r_tick_heartbeat_clock [OF assms(1,2)]
    by (auto simp: r_tick_def split: tick_func.split intro!: postI [of "r_tick_func s"])
  with EvTick show ?thesis by (simp add: r_event_def)
next
  case (EvMsg msg)
  then show ?thesis using r_step_clock [OF assms(1,2)] by (simp add: r_event_def prod.case_eq_if)
qed

text \<open>The invariant of a run: the timer, the types of \<open>Raft_Types\<close>, and the own id among the members.\<close>

definition timed :: "raft \<Rightarrow> bool" where
  "timed r \<longleftrightarrow> clock_ok r \<and> raft_typed r \<and> r_promotable r"

lemma timed_le:
  assumes "raft_le r t" and "timed r" and "clock_ok t" and "r_role_ok t"
  shows "timed t"
proof -
  have typed: "raft_typed r" "r_promotable r" using assms(2) by (auto simp: timed_def)
  then have "om_keys (r_prs t) = om_keys (r_prs r)" "r_id t = r_id r"
    using assms(1) by (auto simp: raft_typed_def raft_le_prs_keys raft_le_id)
  moreover have "r_promotable s \<longleftrightarrow> r_id s \<in> set (om_keys (r_prs s))" for s
    by (simp add: r_promotable_def set_om_keys)
  ultimately have "r_promotable t" using typed(2) by simp
  with assms(3) raft_le_typed [OF assms(1) typed(1) assms(4)] show ?thesis by (simp add: timed_def)
qed

lemma r_event_timed: "rand_ok g \<Longrightarrow> timed r \<Longrightarrow> post (r_event g ev r) timed"
proof -
  assume g: "rand_ok g" and ok: "timed r"
  have "post (r_event g ev r) (\<lambda>t. (clock_ok t \<and> raft_typed t) \<and> raft_le r t)"
    using ok by (intro post_conj r_event_clock r_event_typed r_event_le) (simp_all add: timed_def g)
  then show ?thesis
    by (rule post_mono) (use ok in \<open>auto simp: raft_typed_def intro: timed_le\<close>)
qed

interpretation raft_timed: supplied_machine r_event rand_ok "\<lambda>_. True" timed
  by unfold_locales (auto intro: r_event_timed)

section \<open>Properties\<close>

text \<open>C13: The election timer of a promotable node stays in its range over every run of ticks and
  messages: the elapsed time lies below twice the election timeout, every timeout that is drawn
  lies in the documented interval, and so the next tick of a follower or candidate is defined,
  whatever it draws.\<close>

theorem raft_election_timer_bounded:
  assumes "r_run g evs r = Some r'" and "rand_ok g" and "clock_ok r" and "raft_typed r" and "r_promotable r"
  shows "0 \<le> r_election_elapsed r' \<and> r_election_elapsed r' < 2 * r_election_timeout r'
    \<and> r_election_timeout r' \<le> r_randomized_election_timeout r'
    \<and> r_randomized_election_timeout r' < 2 * r_election_timeout r'
    \<and> (\<forall>h. r_tick_func r' = Some TickElection \<longrightarrow> r_tick h r' \<noteq> None)"
proof -
  have "timed r" using assms(3-5) by (simp add: timed_def)
  then have "timed r'"
    using postD [OF raft_timed.run_keeps_good [OF assms(2)] assms(1) [unfolded r_run_def]] by (simp add: list.pred_True)
  then have ok: "clock_ok r'" by (simp add: timed_def)
  then have "r_tick h r' \<noteq> None" if "r_tick_func r' = Some TickElection" for h
    using that by (simp add: clock_ok_def r_tick_def r_tick_election_def int_inc_def int_add_def r_step_def)
  with ok show ?thesis by (simp add: clock_ok_def)
qed

theorem raft_election_timer_bounded_witness:
  "r_election_elapsed (sample_raft\<lparr>r_election_elapsed := 1\<rparr>) < 2 * r_election_timeout sample_raft"
proof -
  have "clock_ok sample_raft" by (simp add: clock_ok_def sample_defs int_max_def)
  moreover have "raft_typed sample_raft"
    using sample_role_ok(1) by (simp add: raft_typed_def) (simp add: sample_defs om_ok_def om_keys_def)
  moreover have "r_promotable sample_raft" by (simp add: r_promotable_def sample_defs om_find_def)
  ultimately show ?thesis
    using raft_election_timer_bounded [OF sample_tick rand_ok_env_const] by simp
qed

lemma r_tick_unpromotable:
  assumes "r_tick_func r = Some TickElection" and "\<not> r_promotable r"
  shows "r_event g EvTick r = (if r_election_elapsed r + 1 \<le> int_max
    then Some (r\<lparr>r_election_elapsed := r_election_elapsed r + 1\<rparr>) else None)"
  using assms by (simp add: r_event_def r_tick_def r_tick_election_def int_inc_def int_add_def r_promotable_def)

text \<open>A node that may not campaign (a learner, or a node that has been removed) counts its ticks
  without ever starting again: the outcome of any number of ticks is the counter, or, as soon as
  the count passes the largest \<open>int\<close>, undefined.\<close>

theorem raft_unpromotable_ticks:
  assumes "r_tick_func r = Some TickElection" and "\<not> r_promotable r" and "r_election_elapsed r \<le> int_max"
  shows "r_run g (replicate n EvTick) r = (if r_election_elapsed r + int n \<le> int_max
    then Some (r\<lparr>r_election_elapsed := r_election_elapsed r + int n\<rparr>) else None)"
  using assms
proof (induction n arbitrary: g r)
  case 0
  then show ?case by (simp add: r_run_def)
next
  case (Suc n)
  let ?s = "r\<lparr>r_election_elapsed := r_election_elapsed r + 1\<rparr>"
  have "r_run g (replicate (Suc n) EvTick) r
      = (if r_election_elapsed r + 1 \<le> int_max then r_run (sub_call 1 g) (replicate n EvTick) ?s else None)"
    by (simp add: r_run_def r_tick_unpromotable [OF Suc.prems(1,2)])
  moreover have "r_run (sub_call 1 g) (replicate n EvTick) ?s = (if r_election_elapsed ?s + int n \<le> int_max
      then Some (?s\<lparr>r_election_elapsed := r_election_elapsed ?s + int n\<rparr>) else None)"
    if "r_election_elapsed r + 1 \<le> int_max"
    using Suc.prems that by (intro Suc.IH) (simp_all add: r_promotable_def)
  ultimately show ?case by (simp add: algebra_simps)
qed

theorem raft_unpromotable_ticks_witness:
  "r_run (env_const 0) (replicate 2 EvTick) (sample_raft\<lparr>r_id := 9, r_election_elapsed := int_max - 1\<rparr>) = None"
proof -
  let ?r = "sample_raft\<lparr>r_id := 9, r_election_elapsed := int_max - 1\<rparr>"
  have "r_tick_func ?r = Some TickElection" "\<not> r_promotable ?r" "r_election_elapsed ?r \<le> int_max"
    by (simp_all add: r_promotable_def sample_defs om_find_def)
  from raft_unpromotable_ticks [OF this, of "env_const 0" 2] show ?thesis by simp
qed

text \<open>Without the quorum check a leader's tick keeps it leader.\<close>

lemma leader_tick_stays:
  assumes "r_role_ok r" and "r_state r = StateLeader" and "\<not> r_check_quorum r" and "r_tick g r = Some r'"
  shows "r_role_ok r' \<and> r_state r' = StateLeader \<and> \<not> r_check_quorum r'
    \<and> r_heartbeat_elapsed r + 1 \<le> r_heartbeat_elapsed r' \<and> r_heartbeat_elapsed r' \<le> int_max"
proof -
  let ?e = "r_heartbeat_elapsed r"
  from assms(1,2) have func: "r_step_func r = Some StepLeader" "r_tick_func r = Some TickHeartbeat"
    by (auto simp: r_role_ok_def)
  from assms(4) func obtain n t where t: "leader_check g (r\<lparr>r_election_elapsed := n, r_heartbeat_elapsed := ?e + 1\<rparr>) = Some t"
    and rest: "leader_beat g t = Some r'" and small: "?e + 1 \<le> int_max"
    by (auto simp: r_tick_def r_tick_heartbeat_halves bind_eq_Some_conv int_inc_def int_add_def split: if_splits)
  from t assms(3) have "t = r\<lparr>r_election_elapsed := n, r_heartbeat_elapsed := ?e + 1\<rparr>
      \<or> t = r\<lparr>r_heartbeat_elapsed := ?e + 1, r_election_elapsed := 0\<rparr>"
    by (auto simp: leader_check_def split: if_splits)
  then obtain m where t': "t = r\<lparr>r_heartbeat_elapsed := ?e + 1, r_election_elapsed := m\<rparr>"
    by (elim disjE) (rule that [of n], simp, rule that [of 0], simp)
  have step: "r_step h (new_message\<lparr>m_type := MsgBeat, m_from := j\<rparr>) (t\<lparr>r_heartbeat_elapsed := k\<rparr>)
      = Some (NoReturn, new_message\<lparr>m_type := MsgBeat, m_from := j\<rparr>, snd (r_get_progress j (t\<lparr>r_heartbeat_elapsed := k\<rparr>)))"
    for h j k using r_step_leader_beat [of "t\<lparr>r_heartbeat_elapsed := k\<rparr>"] func by (simp add: t')
  have r': "r' = t \<or> (\<exists>j. 2 + ?e \<le> int_max \<and> r' = snd (r_get_progress j (t\<lparr>r_heartbeat_elapsed := 2 + ?e\<rparr>)))"
    using rest assms(2) step by (auto simp: leader_beat_def t' int_inc_def int_add_def split: if_splits)
  moreover have "r_role_ok r'" using postD [OF r_tick_moves [OF assms(1)] assms(4)] by (rule moves_to_ok)
  moreover have "r_state (snd (r_get_progress j u)) = r_state u" "r_check_quorum (snd (r_get_progress j u)) = r_check_quorum u"
    "r_heartbeat_elapsed (snd (r_get_progress j u)) = r_heartbeat_elapsed u" for j u
    by (simp_all add: r_get_progress_def)
  ultimately show ?thesis
    using assms(2,3) small by (auto simp: t')
qed

text \<open>C14: A leader that does not check its quorum counts its heartbeat timer up on every tick and never
  starts it again, so that its ticks end undefined: no run of more ticks than the counter has
  room for returns.\<close>

theorem raft_leader_heartbeat_overflows:
  assumes "r_role_ok r" and "r_state r = StateLeader" and "\<not> r_check_quorum r"
    and "int_max < r_heartbeat_elapsed r + int n" and "0 < n"
  shows "r_run g (replicate n EvTick) r = None"
  using assms
proof (induction n arbitrary: g r)
  case 0
  then show ?case by simp
next
  case (Suc n)
  show ?case
  proof (cases "r_event (sub_call 0 g) EvTick r")
    case None
    then show ?thesis by (simp add: r_run_def)
  next
    case (Some s)
    then have s: "r_role_ok s" "r_state s = StateLeader" "\<not> r_check_quorum s"
      "r_heartbeat_elapsed r + 1 \<le> r_heartbeat_elapsed s" "r_heartbeat_elapsed s \<le> int_max"
      using leader_tick_stays [OF Suc.prems(1-3)] by (simp_all add: r_event_def)
    with Suc.prems(4) have "0 < n" "int_max < r_heartbeat_elapsed s + int n" by auto
    then have "r_run (sub_call 1 g) (replicate n EvTick) s = None" using s by (intro Suc.IH)
    with Some show ?thesis by (simp add: r_run_def)
  qed
qed

theorem raft_leader_heartbeat_overflows_witness:
  "r_run (env_const 0) (replicate 1 EvTick) (sample_leader\<lparr>r_check_quorum := False, r_heartbeat_elapsed := int_max\<rparr>) = None"
  by (rule raft_leader_heartbeat_overflows) (simp_all add: r_role_ok_def sample_defs)

end
