(* ===== verification/Raft_Definedness.thy ===== *)
theory Raft_Definedness
  imports Raft_Timers
begin

text \<open>
  The faults of \<open>raft.cpp\<close> that the model checks (see \<open>Prelude\<close>): over a log that can be read,
  every operation of a node with an id and at least one peer is free of them, but for three
  counters: the uninitialised vote counter, the heartbeat timer of a leader, and the election timer
  (which \<open>Raft_Timers\<close> bounds). Functions that run off their end and reads of unset variables are
  not faults in this sense: the model goes on from them with every value.
\<close>

section \<open>Logs that can be read\<close>

definition log_reads :: "raft_log \<Rightarrow> bool" where
  "log_reads l \<longleftrightarrow> defined (rl_first_index l) \<and> defined (rl_last_index l)"

lemma log_reads_le: "rl_le l l' \<Longrightarrow> log_reads l' = log_reads l"
  by (simp add: log_reads_def rl_first_index_def rl_last_index_def rl_le_def)

lemma log_reads_storage:
  assumes "ms_wf m" and "rl_storage l = Some (ms_storage m)" and "log_ok (ms_view m) (rl_unstable l)"
  shows "log_reads l"
  using ms.rl_first_index_valid [OF assms(1,2)] ms.rl_last_index_valid [OF assms] by (simp add: log_reads_def)

lemma rl_term_defined: "log_reads l \<Longrightarrow> defined (rl_term g l i)"
  by (simp add: log_reads_def rl_term_def)

lemma rl_match_term_defined: "log_reads l \<Longrightarrow> defined (rl_match_term g l i t)"
  by (simp add: rl_match_term_def rl_term_defined)

lemma rl_find_conflict_defined: "log_reads l \<Longrightarrow> defined (rl_find_conflict g l es)"
proof (induction es arbitrary: g)
  case Nil
  then show ?case by simp
next
  case (Cons e es)
  have "defined (rl_last_index l)" using Cons.prems by (simp add: log_reads_def)
  with Cons show ?case by (simp add: rl_match_term_defined)
qed

lemma rl_commit_to_defined: "log_reads l \<Longrightarrow> defined (rl_commit_to c l)"
  by (simp add: log_reads_def rl_commit_to_def)

lemma rl_maybe_commit_defined: "log_reads l \<Longrightarrow> defined (rl_maybe_commit g i t l)"
  by (simp add: rl_maybe_commit_def rl_term_defined rl_commit_to_defined)

lemma rl_maybe_append_defined: "log_reads l \<Longrightarrow> defined (rl_maybe_append g i t c es l)"
  by (simp add: rl_maybe_append_def rl_match_term_defined rl_find_conflict_defined rl_commit_to_defined)

lemma rl_is_up_to_date_defined: "log_reads l \<Longrightarrow> defined (rl_is_up_to_date g l i t)"
  by (simp add: log_reads_def rl_is_up_to_date_def)

section \<open>Nodes that can step\<close>

definition able :: "raft \<Rightarrow> bool" where
  "able r \<longleftrightarrow> log_reads (r_raftlog r) \<and> r_id r \<noteq> 0 \<and> r_prs r \<noteq> [] \<and> peers_ok r"

lemma able_le:
  assumes "raft_le r s" and "able r"
  shows "able s"
proof -
  have keys: "om_keys (r_prs s) = om_keys (r_prs r)"
    using assms by (intro raft_le_prs_keys) (simp_all add: able_def peers_ok_def)
  then have "length (r_prs s) = length (r_prs r)" by (metis length_map om_keys_def)
  moreover have "rl_le (r_raftlog r) (r_raftlog s)" "om_ok (r_prs s)"
    using assms by (auto simp: raft_le_def om_le_def able_def peers_ok_def)
  ultimately show ?thesis
    using assms(2) raft_le_id [OF assms(1)] by (auto simp: able_def peers_ok_def log_reads_le)
qed

lemma r_maybe_commit_defined: "able r \<Longrightarrow> defined (r_maybe_commit g r)"
proof -
  assume ok: "able r"
  then have "defined (vec_at (sort_desc (map (\<lambda>x. pr_match (snd x)) (r_prs r))) (of_int (r_quorum r - 1)))"
    using r_quorum_index [of r] by (simp add: able_def vec_at_def)
  moreover have "log_reads (r_raftlog r)" using ok by (simp add: able_def)
  ultimately show ?thesis
    by (simp add: r_maybe_commit_def rl_maybe_commit_defined prod.case_eq_if del: of_int_diff)
qed

lemma r_progress_maybe_update_defined: "r_get_progress k r = (ref, s) \<Longrightarrow> defined (r_progress_maybe_update ref n s)"
  using om_touch_present [of new_progress k "r_learner_prs r"]
  by (auto simp: r_get_progress_def r_progress_maybe_update_def r_progress_def prod.case_eq_if split: if_splits)

lemma able_get_progress: "able r \<Longrightarrow> able (snd (r_get_progress k r))"
  using r_get_progress_le [OF raft_le_refl] by (rule able_le)

lemma able_update: "able r \<Longrightarrow> post (r_progress_maybe_update ref n r) (\<lambda>x. able (snd x))"
  using r_progress_maybe_update_le by (rule post_mono) (rule able_le)

lemma r_update_commit_defined:
  assumes "able r" and "r_get_progress k r = (ref, s)"
  shows "defined (r_progress_maybe_update ref n s)"
    and "post (r_progress_maybe_update ref n s) (\<lambda>x. defined (r_maybe_commit g (snd x)))"
proof -
  have "able s" using able_get_progress [OF assms(1), of k] assms(2) by simp
  then show "post (r_progress_maybe_update ref n s) (\<lambda>x. defined (r_maybe_commit g (snd x)))"
    by (rule post_mono [OF able_update]) (rule r_maybe_commit_defined)
  show "defined (r_progress_maybe_update ref n s)" using assms(2) by (rule r_progress_maybe_update_defined)
qed

lemma r_append_entry_defined: "able r \<Longrightarrow> defined (r_append_entry g es r)"
proof -
  assume ok: "able r"
  then have li: "defined (rl_last_index (r_raftlog r))" by (simp add: able_def log_reads_def)
  obtain ref s where s: "r_get_progress (r_id r) r = (ref, s)" by (cases "r_get_progress (r_id r) r")
  with li show ?thesis
    using r_update_commit_defined [OF ok s] by (simp add: r_append_entry_def rl_append_pb_def s prod.case_eq_if)
qed

lemma r_handle_append_entries_defined: "able r \<Longrightarrow> defined (r_handle_append_entries g msg r)"
proof -
  assume "able r"
  then have log: "log_reads (r_raftlog r)" by (simp add: able_def)
  have "post (rl_maybe_append g i t c es (r_raftlog r)) (\<lambda>x. defined (rl_last_index (snd x)))" for i t c es
    using rl_maybe_append_le by (rule post_mono) (use log log_reads_le log_reads_def in blast)
  then show ?thesis
    by (simp add: r_handle_append_entries_def rl_maybe_append_defined [OF log] prod.case_eq_if r_send_def)
      (rule post_mono, assumption, simp)
qed

section \<open>Steps\<close>

lemma r_bcast_defined: "able r \<Longrightarrow> defined (r_bcast_append g r)"
  by (simp add: able_def)

lemma r_step_follower_defined: "able r \<Longrightarrow> defined (r_step_follower g msg r)"
proof -
  assume "able r"
  then have "able (r\<lparr>r_election_elapsed := 0, r_lead := m_from msg\<rparr>)" by (simp add: able_def peers_ok_def)
  then show ?thesis
    by (simp add: r_step_follower_def r_handle_append_entries_defined split: message_type.split)
qed

lemma able_become_leader: "able r \<Longrightarrow> able (r_become_leader g r)"
  by (rule able_le [of r]) simp_all

lemma r_step_candidate_defined:
  assumes "able r" and "defined (r_poll (sub_call 0 g) (m_from msg) (m_type msg) (\<not> m_reject msg) r)"
  shows "defined (r_step_candidate g msg r)"
proof -
  have "post (r_poll h k ty v r) (\<lambda>x. able (snd x))" for h k ty v
    using r_poll_le by (rule post_mono) (use assms(1) in \<open>auto intro: able_le\<close>)
  then have lead: "post (r_poll h k ty v r) (\<lambda>x. defined (r_bcast_append h' (r_become_leader h'' (snd x))))" for h h' h'' k ty v
    by (rule post_mono) (intro r_bcast_defined able_become_leader)
  with assms(2) show ?thesis
    by (auto simp: r_step_candidate_def prod.case_eq_if intro: post_mono [OF lead])
qed

lemma r_step_leader_local_defined: "able r \<Longrightarrow> defined (r_step_leader_local g msg r)"
proof (cases "m_type msg = MsgProp")
  case True
  assume ok: "able r"
  have "post (r_append_entry h es r) (\<lambda>x. defined (r_bcast_append h' (snd x)))" for h h' es
    using r_append_entry_le by (rule post_mono) (use ok in \<open>auto intro: able_le r_bcast_defined\<close>)
  with ok True show ?thesis
    by (simp add: r_step_leader_local_def r_append_entry_defined prod.case_eq_if)
next
  case False
  then show ?thesis by (auto simp: r_step_leader_local_def split: message_type.split)
qed

lemma r_step_leader_peer_defined:
  assumes "able r"
  shows "defined (r_step_leader_peer g msg r)"
proof (cases "m_type msg = MsgAppResp")
  case True
  obtain ref s where s: "r_get_progress (m_from msg) r = (ref, s)" by (cases "r_get_progress (m_from msg) r")
  have ok: "able s" using able_get_progress [OF assms, of "m_from msg"] s by simp
  have bcast: "post (r_maybe_commit h u) (\<lambda>x. fst x \<longrightarrow> defined (r_bcast_append h' (snd x)))" if "able u" for h h' u
    using r_maybe_commit_le by (rule post_mono) (use that in \<open>auto intro: able_le r_bcast_defined\<close>)
  have "post (r_progress_maybe_update ref n s) (\<lambda>x. post (r_maybe_commit h (snd x))
      (\<lambda>y. fst y \<longrightarrow> defined (r_bcast_append h' (snd y))))" for n h h'
    using ok by (rule post_mono [OF able_update]) (rule bcast)
  with r_update_commit_defined(2) [OF assms s]
  have "post (r_progress_maybe_update ref n s) (\<lambda>x. defined (r_maybe_commit h (snd x))
      \<and> post (r_maybe_commit h (snd x)) (\<lambda>y. fst y \<longrightarrow> defined (r_bcast_append h' (snd y))))" for n h h'
    by (intro post_conj)
  with True show ?thesis
    using r_update_commit_defined(1) [OF assms s] by (simp add: r_step_leader_peer_def s prod.case_eq_if)
next
  case False
  then show ?thesis by (auto simp: r_step_leader_peer_def prod.case_eq_if split: message_type.split)
qed

lemma r_step_leader_defined:
  assumes "able r"
  shows "defined (r_step_leader g msg r)"
proof -
  have "post (r_step_leader_local h msg r) (\<lambda>x. able (snd (snd x)))" for h
    using r_step_leader_local_le by (rule post_mono) (rule able_le [OF _ assms])
  then have "post (r_step_leader_local h msg r) (\<lambda>x. defined (case fst x of
      Returns e \<Rightarrow> Some (Returns e, fst (snd x), snd (snd x))
    | NoReturn \<Rightarrow> r_step_leader_peer h' (fst (snd x)) (snd (snd x))))" for h h'
    by (rule post_mono) (simp add: r_step_leader_peer_defined split: rv.split)
  with assms show ?thesis
    by (simp add: r_step_leader_def r_step_leader_local_defined prod.case_eq_if)
qed

lemma r_step_vote_defined: "able r \<Longrightarrow> defined (r_step_vote g msg r)"
  by (simp add: r_step_vote_def r_can_vote_def able_def rl_is_up_to_date_defined)

text \<open>The vote counter of a candidate, whatever it starts from, can be undefined.\<close>

definition grant_overflows :: "message \<Rightarrow> raft \<Rightarrow> bool" where
  "grant_overflows msg r \<longleftrightarrow> r_step_func r = Some StepCandidate
     \<and> (m_type msg = MsgVoteResp \<or> m_type msg = MsgPreVoteResp)
     \<and> (\<exists>h. r_poll h (m_from msg) (m_type msg) (\<not> m_reject msg) r = None)"

lemma r_step_defined:
  assumes "able r" and "r_step_func r \<noteq> None" and "\<not> grant_overflows msg r"
  shows "defined (r_step g msg r)"
proof -
  from assms(2) obtain f where f: "r_step_func r = Some f" by blast
  have "defined (r_step_candidate g msg r)" if "f = StepCandidate"
  proof (cases "m_type msg = MsgPreVoteResp \<or> m_type msg = MsgVoteResp")
    case True
    with assms(3) f that show ?thesis
      by (intro r_step_candidate_defined [OF assms(1)]) (auto simp: grant_overflows_def defined_def)
  qed (simp add: r_step_candidate_def)
  with assms(1) f show ?thesis
    by (cases f) (simp_all add: r_step_def r_call_step_func_def r_step_vote_defined r_step_follower_defined
        r_step_leader_defined prod.case_eq_if)
qed

section \<open>Ticks\<close>

lemma leader_check_defined: "r_step_func r = Some StepLeader \<Longrightarrow> defined (leader_check g r)"
proof -
  assume func: "r_step_func r = Some StepLeader"
  have "defined (r_step h (new_message\<lparr>m_type := MsgCheckQuorum, m_from := k\<rparr>) (r\<lparr>r_election_elapsed := 0\<rparr>))" for h k
    using r_step_leader_check_quorum [of "r\<lparr>r_election_elapsed := 0\<rparr>" "new_message\<lparr>m_type := MsgCheckQuorum, m_from := k\<rparr>" h] func
    by (auto simp: defined_def)
  then show ?thesis by (simp add: leader_check_def prod.case_eq_if)
qed

lemma leader_beat_defined:
  assumes "r_role_ok r" and "r_heartbeat_elapsed r < int_max"
  shows "defined (leader_beat g r)"
proof -
  have "defined (r_step h (new_message\<lparr>m_type := MsgBeat, m_from := k\<rparr>) (r\<lparr>r_heartbeat_elapsed := i\<rparr>))"
    if "r_state r = StateLeader" for h k i
    using r_step_leader_beat [of "r\<lparr>r_heartbeat_elapsed := i\<rparr>" "new_message\<lparr>m_type := MsgBeat, m_from := k\<rparr>" h] assms(1) that
    by (auto simp: defined_def r_role_ok_def)
  with assms(2) show ?thesis
    by (simp add: leader_beat_def int_inc_def int_add_def prod.case_eq_if)
qed

lemma r_tick_defined:
  assumes "r_role_ok r" and "r_election_elapsed r < int_max"
    and "r_state r = StateLeader \<Longrightarrow> r_heartbeat_elapsed r < int_max - 1"
  shows "defined (r_tick g r)"
proof (cases "r_state r = StateLeader")
  case False
  then have "r_tick_func r = Some TickElection" using assms(1) by (auto simp: r_role_ok_def)
  with assms(2) show ?thesis
    by (simp add: r_tick_def r_tick_election_def int_inc_def int_add_def r_step_def)
next
  case True
  then have func: "r_tick_func r = Some TickHeartbeat" "r_step_func r = Some StepLeader"
    using assms(1) by (auto simp: r_role_ok_def)
  let ?s = "r\<lparr>r_election_elapsed := r_election_elapsed r + 1, r_heartbeat_elapsed := r_heartbeat_elapsed r + 1\<rparr>"
  have ok: "r_role_ok ?s" using moves_to_ok [OF moves_to_same [OF assms(1), of ?s]] by simp
  have "post (leader_check g ?s) (\<lambda>t. r_timers t = r_timers ?s \<and> r_role_ok t)"
    using leader_check_keeps [OF ok] func by simp
  then have "post (leader_check g ?s) (\<lambda>t. defined (leader_beat g t))"
    by (rule post_mono) (use assms(3) True in \<open>auto simp: r_timers_def intro: leader_beat_defined\<close>)
  moreover have "defined (leader_check g ?s)" using func by (intro leader_check_defined) simp
  ultimately show ?thesis
    using assms(2,3) True func
    by (simp add: r_tick_def r_tick_heartbeat_halves int_inc_def int_add_def)
qed

section \<open>Runs\<close>

definition ready_to_run :: "raft \<Rightarrow> bool" where
  "ready_to_run r \<longleftrightarrow> timed r \<and> able r"

lemma r_event_ready: "rand_ok g \<Longrightarrow> ready_to_run r \<Longrightarrow> post (r_event g ev r) ready_to_run"
proof -
  assume g: "rand_ok g" and ok: "ready_to_run r"
  have "post (r_event g ev r) (\<lambda>t. timed t \<and> raft_le r t)"
    using ok by (intro post_conj r_event_timed r_event_le) (simp_all add: ready_to_run_def g)
  then show ?thesis
    by (rule post_mono) (use ok in \<open>auto simp: ready_to_run_def intro: able_le\<close>)
qed

interpretation raft_ready: supplied_machine r_event rand_ok "\<lambda>_. True" ready_to_run
  by unfold_locales (auto intro: r_event_ready)

lemma r_event_undefined:
  assumes "r_event g ev r = None" and "ready_to_run r"
  shows "(ev = EvTick \<and> r_state r = StateLeader \<and> int_max - 1 \<le> r_heartbeat_elapsed r)
    \<or> (\<exists>msg. ev = EvMsg msg \<and> grant_overflows msg r)"
proof -
  have role: "r_role_ok r" and small: "r_election_elapsed r < int_max" and ok: "able r"
    using assms(2) by (auto simp: ready_to_run_def timed_def raft_typed_def clock_ok_def)
  show ?thesis
  proof (cases ev)
    case EvTick
    with assms(1) have "\<not> defined (r_tick g r)" by (simp add: r_event_def)
    with r_tick_defined [OF role small] EvTick show ?thesis by fastforce
  next
    case (EvMsg msg)
    with assms(1) have "\<not> defined (r_step g msg r)"
      by (auto simp: r_event_def prod.case_eq_if elim!: definedE)
    moreover have "r_step_func r \<noteq> None" using role by (auto simp: r_role_ok_def)
    ultimately show ?thesis using r_step_defined [OF ok] EvMsg by blast
  qed
qed

section \<open>A candidate at its first vote\<close>

text \<open>The sample candidate is ready, and fails when it counts from the largest \<open>int\<close>.\<close>

definition sample_vote :: message where
  "sample_vote = new_message\<lparr>m_type := MsgVoteResp, m_from := 2\<rparr>"

lemma sample_candidate_log: "r_raftlog sample_candidate = sample_log"
  by (simp add: sample_defs)

lemma sample_candidate_role:
  "r_step_func sample_candidate = Some StepCandidate" "r_state sample_candidate = StateFollower"
  by (simp_all add: sample_defs)

lemma sample_candidate_ready:
  "raft_typed sample_candidate" "clock_ok sample_candidate" "r_promotable sample_candidate"
  "r_id sample_candidate \<noteq> 0" "length (r_prs sample_candidate) < 2147483648"
  using sample_role_ok(3)
  by (simp_all add: raft_typed_def clock_ok_def r_promotable_def om_find_def)
    (simp_all add: sample_defs om_ok_def om_keys_def u64_order int_max_def)

lemma sample_candidate_counts: "r_step (env_const 2147483647) sample_vote sample_candidate = None"
proof -
  have "r_poll (env_const 2147483647) 2 MsgVoteResp True sample_candidate = None"
    by (simp add: r_poll_def granted_votes_def count_if_def sample_defs om_find_def om_put_def int_add_def int_max_def)
  then show ?thesis
    by (simp add: r_step_def r_call_step_func_def r_step_candidate_def sample_vote_def new_message_def sample_candidate_role)
qed

section \<open>Properties\<close>

text \<open>C5: Which faults a run of the raft state machine can meet, where a fault is one that the model
  checks: an access outside a vector, map or iterator range, a null pointer, an empty function, a
  signed overflow, a failed assertion. Take a node with an id that is one of its
  own peers, whose timers are in range, whose maps and roles are well-formed, and whose log can
  be read, as every log over a well-formed memory storage can. If some run of ticks and messages
  of any kind meets a fault, it has a part without fault after which either a leader's tick overflows
  the heartbeat timer, or a candidate counts votes from an uninitialised start that is too
  large. No other fault can happen, whatever the values are that the code reads without having
  set them and whatever the functions return that have no return statement. That such a read or
  such a missing return is undefined behaviour by itself in C++ is outside this statement; the step
  functions of \<open>Raft\<close>, \<open>Append\<close>, \<open>Term\<close>, \<open>LastTerm\<close> and the variable \<open>grant\<close> are of this kind.\<close>

theorem raft_faults_only_by_counters:
  assumes "ms_wf m" and "rl_storage (r_raftlog r) = Some (ms_storage m)"
    and "log_ok (ms_view m) (rl_unstable (r_raftlog r))"
    and "raft_typed r" and "clock_ok r" and "r_promotable r" and "r_id r \<noteq> 0" and "length (r_prs r) < 2147483648"
    and "rand_ok g" and "r_run g evs r = None"
  shows "\<exists>evs1 ev evs2 t. evs = evs1 @ ev # evs2 \<and> r_run g evs1 r = Some t
    \<and> ((ev = EvTick \<and> r_state t = StateLeader \<and> int_max - 1 \<le> r_heartbeat_elapsed t)
      \<or> (\<exists>msg h. ev = EvMsg msg \<and> r_step_func t = Some StepCandidate
          \<and> (m_type msg = MsgVoteResp \<or> m_type msg = MsgPreVoteResp)
          \<and> r_poll h (m_from msg) (m_type msg) (\<not> m_reject msg) t = None))"
proof -
  have "log_reads (r_raftlog r)" using assms(1-3) by (rule log_reads_storage)
  moreover have "r_prs r \<noteq> []" using assms(6) by (auto simp: r_promotable_def om_find_def)
  ultimately have "ready_to_run r"
    using assms(4-8) by (simp add: ready_to_run_def timed_def able_def peers_ok_def raft_typed_def)
  from raft_ready.run_undefined_good [OF assms(9) _ this assms(10) [unfolded r_run_def]]
  obtain evs1 ev evs2 t h where split: "evs = evs1 @ ev # evs2" "for_each r_event g evs1 r = Some t"
    and t: "ready_to_run t" "r_event h ev t = None" by (auto simp: list.pred_True)
  from r_event_undefined [OF t(2,1)] show ?thesis
    using split unfolding r_run_def grant_overflows_def by blast
qed

text \<open>The witness is a candidate that counts its first vote from the largest \<open>int\<close>.\<close>

theorem raft_faults_only_by_counters_witness:
  "r_step_func sample_candidate = Some StepCandidate
    \<and> (\<exists>h. r_poll h 2 MsgVoteResp True sample_candidate = None)"
proof -
  have run: "r_run (env_const 2147483647) [EvMsg sample_vote] sample_candidate = None"
    by (simp add: r_run_def r_event_def sample_candidate_counts)
  from raft_faults_only_by_counters [OF sample_storage_wf _ _ sample_candidate_ready rand_ok_env_const run,
      unfolded sample_candidate_log, OF sample_log_storage sample_log_ok]
  show ?thesis
    by (auto simp: append_eq_Cons_conv Cons_eq_append_conv r_run_def sample_candidate_role sample_vote_def new_message_def)
qed

end
