(* ===== verification/Raft_Handlers.thy ===== *)
theory Raft_Handlers
  imports Raft_Definedness
begin

text \<open>
  The whole outcome of the handlers of the \<open>Raft\<close> class, as equations: a vote request, an append
  request to a follower, the local message that starts a campaign, and the ticks that lead to it.
  The log is any log over a well-formed memory storage. The values that the code reads without
  having set them (what \<open>LastTerm\<close>, \<open>Term\<close> and \<open>bool Poll()\<close> do not return) are named by the
  place of the supply from which they are read.
\<close>

section \<open>Lemmas\<close>

context storage_contract
begin

lemma is_up_to_date_valid:
  assumes "valid m" and "rl_storage l = Some (obj m)" and "log_ok (view m) (rl_unstable l)"
  shows "rl_is_up_to_date g l i t = Some
    (rl_last_term (sub_call 0 g) l < t
     \<or> (t = rl_last_term (sub_call 1 g) l \<and> log_last (view m) (rl_unstable l) < unat i))"
  using log_last_unat [OF assms(3)] by (simp add: rl_is_up_to_date_def rl_last_index_valid [OF assms] u64_order)

text \<open>\<open>MatchTerm\<close>: outside the log the term is 0, inside it is what \<open>Term\<close> does not return.\<close>

lemma match_term_valid:
  assumes "valid m" and "rl_storage l = Some (obj m)" and "log_ok (view m) (rl_unstable l)"
  shows "rl_match_term g l i t = Some
    (if unat i < lv_base (view m) \<or> log_last (view m) (rl_unstable l) < unat i then t = 0
     else indet_error (sub_call 0 g) = ErrNone \<and> indet_u64 (sub_call 1 g) = t)"
proof (cases "unat i < lv_base (view m) \<or> log_last (view m) (rl_unstable l) < unat i")
  case True
  then show ?thesis by (auto simp: rl_match_term_def term_outside_log [OF assms])
next
  case False
  have "unat (of_nat (Suc (lv_base (view m))) - 1 :: u64) = lv_base (view m)"
    using first_index_unat [OF assms(1)] by (subst unat_sub_u64) (auto simp: u64_order)
  with False show ?thesis
    using log_last_unat [OF assms(3)] rl_first_index_valid [OF assms(1,2)] rl_last_index_valid [OF assms]
    by (auto simp: rl_match_term_def rl_term_def u64_order)
qed

end

lemma maybe_append_outcome:
  assumes "log_reads l" and "rl_match_term (sub_call 0 g) l i t = Some b"
  shows "rl_maybe_append g i t c es l = Some
    (if b then ((c, True), l\<lparr>rl_committed := max (rl_committed l) (min c (i + vec_size es))\<rparr>) else ((0, False), l))"
proof -
  obtain x l' where run: "rl_maybe_append g i t c es l = Some (x, l')"
    using rl_maybe_append_defined [OF assms(1), of g i t c es] by (elim definedE) force
  then have "snd x = b" using assms(2) by (auto simp: rl_maybe_append_def bind_eq_Some_conv split: if_splits)
  with rl_maybe_append_cases [OF run] run show ?thesis by (cases x) auto
qed

section \<open>Vote requests\<close>

text \<open>C10: What a vote request does, on every branch. It is answered with \<open>ErrNone\<close> and by no message:
  the response that \<open>Step\<close> builds is dropped. The vote goes to the sender and the election timer
  restarts exactly for a \<open>MsgVote\<close> to a node that is no learner, that has no vote yet, has voted for
  the sender, or is in an older term than the request, and whose log the candidate's log passes:
  by a higher term than the one \<open>LastTerm\<close> is read to give, or by the same term and a larger last
  index. Otherwise, and for every \<open>MsgPreVote\<close>, the node is unchanged.\<close>

theorem raft_vote_request_outcome:
  assumes "ms_wf m" and "rl_storage (r_raftlog r) = Some (ms_storage m)"
    and "log_ok (ms_view m) (rl_unstable (r_raftlog r))"
    and "m_type msg = MsgVote \<or> m_type msg = MsgPreVote"
  shows "r_step g msg r = Some (Returns ErrNone, msg,
    if m_type msg = MsgVote \<and> \<not> r_is_learner r
      \<and> (r_vote r = 0 \<or> r_vote r = m_from msg \<or> r_term r < m_term msg)
      \<and> (rl_last_term (sub_call 0 g) (r_raftlog r) < m_term msg
         \<or> (m_term msg = rl_last_term (sub_call 1 g) (r_raftlog r)
            \<and> log_last (ms_view m) (rl_unstable (r_raftlog r)) < unat (m_index msg)))
    then r\<lparr>r_vote := m_from msg, r_election_elapsed := 0\<rparr> else r)"
proof -
  define passes where "passes \<longleftrightarrow> rl_last_term (sub_call 0 g) (r_raftlog r) < m_term msg
    \<or> (m_term msg = rl_last_term (sub_call 1 g) (r_raftlog r)
       \<and> log_last (ms_view m) (rl_unstable (r_raftlog r)) < unat (m_index msg))"
  have "rl_is_up_to_date g (r_raftlog r) (m_index msg) (m_term msg) = Some passes"
    unfolding passes_def by (rule ms.is_up_to_date_valid [OF assms(1-3)])
  then have "r_can_vote g msg r = Some ((r_vote r = 0 \<or> r_vote r = m_from msg \<or> r_term r < m_term msg) \<and> passes)"
    by (simp add: r_can_vote_def)
  with assms(4) show ?thesis
    unfolding passes_def [symmetric] by (cases "r_is_learner r") (auto simp: r_step_def r_step_vote_def)
qed

lemma sample_last: "log_last (ms_view sample_storage) (rl_unstable sample_log) = 5"
proof -
  have "(of_nat (log_last (ms_view sample_storage) (rl_unstable sample_log)) :: u64) = 5"
    using sample_log_last_index ms.rl_last_index_valid [OF sample_storage_wf sample_log_storage sample_log_ok] by simp
  then have "unat (of_nat (log_last (ms_view sample_storage) (rl_unstable sample_log)) :: u64) = 5" by simp
  then show ?thesis using ms.log_last_unat [OF sample_log_ok] by simp
qed

text \<open>The witness is a node that gives its vote, and a candidate whose log ends at the same index,
  which is refused.\<close>

theorem raft_vote_request_outcome_witness:
  "r_step (env_const 2) (new_message\<lparr>m_type := MsgVote, m_from := 3, m_term := 2, m_index := 6\<rparr>) sample_raft
      = Some (Returns ErrNone, new_message\<lparr>m_type := MsgVote, m_from := 3, m_term := 2, m_index := 6\<rparr>,
              sample_raft\<lparr>r_vote := 3, r_election_elapsed := 0\<rparr>)
    \<and> r_step (env_const 2) (new_message\<lparr>m_type := MsgVote, m_from := 3, m_term := 2, m_index := 5\<rparr>) sample_raft
      = Some (Returns ErrNone, new_message\<lparr>m_type := MsgVote, m_from := 3, m_term := 2, m_index := 5\<rparr>, sample_raft)"
proof -
  have raft: "r_raftlog sample_raft = sample_log" "\<not> r_is_learner sample_raft" "r_vote sample_raft = 0"
    by (simp_all add: sample_defs)
  show ?thesis
    using raft_vote_request_outcome [OF sample_storage_wf, of sample_raft _ "env_const 2"]
      sample_log_storage sample_log_ok
    by (simp add: raft sample_last rl_last_term_def)
qed

section \<open>Append requests\<close>

text \<open>Whether \<open>MatchTerm\<close> accepts the entry in front of a request; \<open>base\<close> is the last compacted
  index of the storage and \<open>li\<close> the last index of the log.\<close>

definition prev_matches :: "env \<Rightarrow> nat \<Rightarrow> nat \<Rightarrow> message \<Rightarrow> bool" where
  "prev_matches g base li msg \<longleftrightarrow>
     (if unat (m_index msg) < base \<or> li < unat (m_index msg) then m_term msg = 0
      else indet_error (sub_call 0 g) = ErrNone \<and> indet_u64 (sub_call 1 g) = m_term msg)"

text \<open>C11: What a follower does with an append request, on every branch. It takes the sender as leader,
  restarts its election timer and answers; a request below the commit index is answered twice,
  first with the commit index, because the early return is missing. If the entry in front of the
  request matches, the commit index goes up to the smaller of the leader's commit index and the
  last new index, never down, and the answer carries the leader's commit index. If it does not
  match, the log stays as it is and the answer is a rejection with the index of the request and
  the last index of the log. An entry outside the log matches the term 0; inside the log the
  answer depends on what \<open>Term\<close> does not return.\<close>

theorem raft_append_request_answers:
  assumes "ms_wf m" and "rl_storage (r_raftlog r) = Some (ms_storage m)"
    and "log_ok (ms_view m) (rl_unstable (r_raftlog r))"
    and "r_step_func r = Some StepFollower" and "m_type msg = MsgApp"
  shows "let l = r_raftlog r; li = log_last (ms_view m) (rl_unstable l);
      matched = prev_matches (sub_call 0 g) (lv_base (ms_view m)) li msg;
      early = (if m_index msg < rl_committed l then [(append_response msg r)\<lparr>m_index := rl_committed l\<rparr>] else []);
      answer = (if matched then (append_response msg r)\<lparr>m_index := m_commit msg\<rparr>
        else (append_response msg r)\<lparr>m_index := m_index msg, m_reject := True, m_reject_hint := of_nat li\<rparr>)
    in r_step g msg r = Some (NoReturn, msg, r\<lparr>r_election_elapsed := 0, r_lead := m_from msg,
      r_raftlog := (if matched
        then l\<lparr>rl_committed := max (rl_committed l) (min (m_commit msg) (m_index msg + vec_size (m_entries msg)))\<rparr> else l),
      r_msgs := r_msgs r @ early @ [answer]\<rparr>)"
proof -
  let ?l = "r_raftlog r"
  define li where "li = log_last (ms_view m) (rl_unstable ?l)"
  define b where "b = prev_matches (sub_call 0 g) (lv_base (ms_view m)) li msg"
  have reads: "log_reads ?l" using assms(1-3) by (rule log_reads_storage)
  have last: "rl_last_index ?l = Some (of_nat li)"
    unfolding li_def by (rule ms.rl_last_index_valid [OF assms(1-3)])
  have "rl_match_term (sub_call 0 g) ?l (m_index msg) (m_term msg) = Some b"
    using ms.match_term_valid [OF assms(1-3), of "sub_call 0 g" "m_index msg" "m_term msg"]
    by (auto simp: b_def prev_matches_def li_def)
  note app = maybe_append_outcome [OF reads this, of "m_commit msg" "m_entries msg"]
  have step: "r_step g msg r = do { r' \<leftarrow> r_handle_append_entries g msg (r\<lparr>r_election_elapsed := 0, r_lead := m_from msg\<rparr>);
      Some (NoReturn, msg, r') }"
    using assms(4,5) by (simp add: r_step_def r_call_step_func_def r_step_follower_def)
  show ?thesis
    unfolding step li_def [symmetric] b_def [symmetric] Let_def
    by (cases b; cases "m_index msg < rl_committed ?l")
      (simp_all add: r_handle_append_entries_def app last r_send_def append_response_def)
qed

text \<open>The witness is a request below the commit index, which gets two answers, and one whose
  index is behind the log, which is rejected.\<close>

theorem raft_append_request_answers_witness:
  "\<exists>r1 r2. r_step (env_const 14) (new_message\<lparr>m_type := MsgApp, m_from := 2, m_index := 2, m_term := 14, m_commit := 6\<rparr>)
        sample_raft = Some (NoReturn, new_message\<lparr>m_type := MsgApp, m_from := 2, m_index := 2, m_term := 14, m_commit := 6\<rparr>, r1)
    \<and> map m_reject (r_msgs r1) = [False, False]
    \<and> r_step (env_const 14) (new_message\<lparr>m_type := MsgApp, m_from := 2, m_index := 9, m_term := 14\<rparr>)
        sample_raft = Some (NoReturn, new_message\<lparr>m_type := MsgApp, m_from := 2, m_index := 9, m_term := 14\<rparr>, r2)
    \<and> map m_reject (r_msgs r2) = [True]"
proof -
  have raft: "r_raftlog sample_raft = sample_log" "r_step_func sample_raft = Some StepFollower" "r_msgs sample_raft = []"
    by (simp_all add: sample_defs)
  have base: "lv_base (ms_view sample_storage) = 2"
    by (simp add: ms_view_def ms_base_def sample_storage_def)
  show ?thesis
    using raft_append_request_answers [OF sample_storage_wf, of sample_raft _ "env_const 14"]
      sample_log_storage sample_log_ok
    by (simp add: raft base sample_last prev_matches_def indet_error_def raft_errors_def append_response_def
        new_message_def u64_order)
qed

section \<open>Campaigns\<close>

abbreviation vote_request :: "raft \<Rightarrow> u64 \<Rightarrow> message" where
  "vote_request r k \<equiv> new_message\<lparr>m_type := MsgVote, m_to := k, m_from := r_id r, m_term := r_term r\<rparr>"

lemma hup_outcome:
  assumes "peers_ok r"
  shows "r_step_hup g r = (if r_state r = StateLeader \<or> r_pre_vote r then r
    else r\<lparr>r_step_func := Some StepCandidate, r_tick_func := Some TickElection, r_vote := r_id r,
      r_state := StateFollower,
      r_randomized_election_timeout := r_randomized_election_timeout (r_reset (sub_call 2 g) (r_term r + 1) r),
      r_msgs := r_msgs r @ (if indet_bool (sub_call 3 g) then []
        else map (vote_request r) (filter (\<lambda>k. k \<noteq> r_id r) (om_keys (r_prs r))))\<rparr>)"
proof -
  have "r_quorum (r_become_candidate h r) \<noteq> 0" for h
    using r_quorum_small [OF assms] by (simp add: r_become_candidate_def r_quorum_def r_reset_def
        r_reset_randomized_election_timeout_def majority_of_def)
  then show ?thesis
    by (simp add: r_step_hup_def r_campaign_def r_campaign_fold read_bool_def r_poll_any_def)
      (simp add: r_become_candidate_def r_reset_def r_reset_randomized_election_timeout_def om_keys_def filter_map comp_def)
qed

text \<open>C31: What the local message that asks for a campaign does, on every branch. A leader ignores it,
  and so does a node with \<open>pre_vote_\<close> set, because the pre-campaign is not written. Any other node
  becomes candidate (in the step function; it calls itself follower), votes for itself and draws
  a new timeout, while its term is not increased. Then it sends one vote request with its term to
  every other peer, in the order of the keys, unless \<open>bool Poll()\<close>, which has no return statement,
  is read as true: then it sends nothing. Nothing else changes, and if the random number is in
  range, so is the new timeout.\<close>

theorem raft_campaign_requests:
  assumes "peers_ok r"
  shows "\<exists>d. r_step_hup g r = (if r_state r = StateLeader \<or> r_pre_vote r then r
      else r\<lparr>r_step_func := Some StepCandidate, r_tick_func := Some TickElection, r_vote := r_id r,
        r_state := StateFollower, r_randomized_election_timeout := d,
        r_msgs := r_msgs r @ (if indet_bool (sub_call 3 g) then []
          else map (vote_request r) (filter (\<lambda>k. k \<noteq> r_id r) (om_keys (r_prs r))))\<rparr>)
    \<and> (rand_ok g \<and> 0 < r_election_timeout r \<and> 2 * r_election_timeout r \<le> int_max \<longrightarrow>
        r_election_timeout r \<le> d \<and> d \<le> 2 * r_election_timeout r - 1)"
proof -
  let ?d = "r_randomized_election_timeout (r_reset (sub_call 2 g) (r_term r + 1) r)"
  have "r_election_timeout r \<le> ?d \<and> ?d \<le> 2 * r_election_timeout r - 1"
    if "rand_ok g" "0 < r_election_timeout r" "2 * r_election_timeout r \<le> int_max"
    using raft_randomized_timeout_range [OF rand_ok_sub_call [OF that(1)] that(2,3), of 2 "r_term r + 1"] by force
  then show ?thesis by (intro exI [of _ ?d]) (simp add: hup_outcome [OF assms])
qed

theorem raft_campaign_requests_witness:
  "map m_to (r_msgs (r_step_hup (env_const 0) sample_raft)) = [2, 3]
    \<and> r_term (r_step_hup (env_const 0) sample_raft) = 14
    \<and> r_msgs (r_step_hup (env_const 1) sample_raft) = []"
proof -
  have raft: "r_state sample_raft \<noteq> StateLeader" "\<not> r_pre_vote sample_raft" "r_msgs sample_raft = []"
    "r_term sample_raft = 14" "r_id sample_raft = 1" "om_keys (r_prs sample_raft) = [1, 2, 3]"
    by (simp_all add: sample_defs om_keys_def)
  have out: "r_msgs (r_step_hup (env_const v) sample_raft) = (if v \<noteq> 0 then [] else map (vote_request sample_raft) [2, 3])
      \<and> r_term (r_step_hup (env_const v) sample_raft) = 14" for v
  proof -
    obtain d where eq: "r_step_hup (env_const v) sample_raft = (if r_state sample_raft = StateLeader \<or> r_pre_vote sample_raft
        then sample_raft else sample_raft\<lparr>r_step_func := Some StepCandidate,
        r_tick_func := Some TickElection, r_vote := r_id sample_raft, r_state := StateFollower, r_randomized_election_timeout := d,
        r_msgs := r_msgs sample_raft @ (if indet_bool (sub_call 3 (env_const v)) then []
          else map (vote_request sample_raft) (filter (\<lambda>k. k \<noteq> r_id sample_raft) (om_keys (r_prs sample_raft))))\<rparr>)"
      using raft_campaign_requests [OF sample_raft_ok(1), of "env_const v"] by (elim exE conjE) (rule that)
    show ?thesis unfolding eq by (simp add: raft)
  qed
  show ?thesis using out [of 0] out [of 1] by (simp add: comp_def)
qed

section \<open>The election timeout\<close>

text \<open>C12: A promotable node that hears nothing waits exactly its randomized timeout: for every smaller
  number of ticks only the elapsed counter moves, and no counter overflows on the way. The tick
  that reaches the timeout restarts the counter and campaigns: the node becomes candidate, votes
  for itself in its old term and sends a vote request to every other peer, unless \<open>bool Poll()\<close>,
  which has no return statement, is read as true. With \<open>pre_vote_\<close> set it only restarts the counter,
  because the pre-campaign is not written.\<close>

theorem raft_election_timeout_fires:
  assumes "r_tick_func r = Some TickElection" and "r_promotable r" and "peers_ok r" and "r_state r \<noteq> StateLeader"
    and "r_randomized_election_timeout r \<le> int_max" and "r_election_elapsed r < r_randomized_election_timeout r"
  shows "(\<forall>k. r_election_elapsed r + int k < r_randomized_election_timeout r \<longrightarrow>
        r_run g (replicate k EvTick) r = Some (r\<lparr>r_election_elapsed := r_election_elapsed r + int k\<rparr>))
    \<and> (let n = nat (r_randomized_election_timeout r - r_election_elapsed r);
           cut = indet_bool (sub_call 3 (sub_call 0 ((sub_call 1 ^^ (n - 1)) g)))
       in \<exists>d. r_run g (replicate n EvTick) r = Some
         (if r_pre_vote r then r\<lparr>r_election_elapsed := 0\<rparr>
          else r\<lparr>r_election_elapsed := 0, r_step_func := Some StepCandidate, r_tick_func := Some TickElection,
            r_vote := r_id r,
            r_state := StateFollower, r_randomized_election_timeout := d,
            r_msgs := r_msgs r @ (if cut then []
              else map (vote_request r) (filter (\<lambda>k. k \<noteq> r_id r) (om_keys (r_prs r))))\<rparr>))"
proof -
  let ?e = "r_election_elapsed r" and ?d = "r_randomized_election_timeout r" and ?s = "r\<lparr>r_election_elapsed := 0\<rparr>"
  define k where "k = nat (?d - ?e) - 1"
  have k: "nat (?d - ?e) = Suc k" "?e + int k = ?d - 1" using assms(6) by (auto simp: k_def)
  define h where "h = sub_call 0 ((sub_call 1 ^^ k) g)"
  have "r_event h EvTick (r\<lparr>r_election_elapsed := ?d - 1\<rparr>) = Some (r_step_hup h ?s)"
    using assms(1,2,5) by (simp add: r_event_def r_tick_def r_tick_election_def r_past_election_timeout_def
        r_promotable_def int_inc_def int_add_def r_step_def)
  then have "r_run g (replicate (Suc k) EvTick) r = Some (r_step_hup h ?s)"
    using r_election_wait [OF assms(1,5), of k g] k(2) r_run_append [of g k "[EvTick]" r]
    by (simp add: replicate_append_same [symmetric] r_run_def h_def)
  moreover have "peers_ok ?s" using assms(3) by (simp add: peers_ok_def)
  ultimately show ?thesis
    using r_election_wait [OF assms(1,5)] assms(4) k(1) unfolding Let_def
    by (intro conjI) (blast, simp add: hup_outcome h_def, blast)
qed

theorem raft_election_timeout_fires_witness:
  "\<exists>r'. r_run (env_const 0) (replicate 4 EvTick) sample_raft = Some r'
    \<and> r_step_func r' = Some StepCandidate \<and> map m_to (r_msgs r') = [2, 3]"
proof -
  have raft: "r_tick_func sample_raft = Some TickElection" "r_promotable sample_raft" "r_state sample_raft \<noteq> StateLeader"
    "r_randomized_election_timeout sample_raft = 4" "r_election_elapsed sample_raft = 0" "\<not> r_pre_vote sample_raft"
    "r_msgs sample_raft = []" "r_id sample_raft = 1" "om_keys (r_prs sample_raft) = [1, 2, 3]"
    by (simp_all add: r_promotable_def sample_defs om_find_def om_keys_def)
  have const: "(sub_call 1 ^^ k) (env_const 0) = env_const 0" for k by (induction k) simp_all
  from const [of 3] have const3: "(sub_call (Suc 0) ^^ 3) (env_const 0) = env_const 0" by simp
  show ?thesis
    using conjunct2 [OF raft_election_timeout_fires [OF raft(1,2) sample_raft_ok(1) raft(3), of "env_const 0"]]
    by (auto simp: raft const3 int_max_def)
qed

end
