(* ===== verification/Raft_Node.thy ===== *)
theory Raft_Node
  imports Raft_Invariants
begin

text \<open>
  \<^verbatim>\<open>src/src/anraft/node.h\<close> and \<^verbatim>\<open>node.cpp\<close>: the queue between the timer, the clients, the
  network and the \<open>Raft\<close> object. \<open>Raft::NewRaft\<close> and \<open>Raft::GetRaft\<close> have empty bodies; the
  model takes the object that they are declared to return as its state. The execution queue
  belongs to bthread: what a call to it returns is an argument, and a batch that the queue
  hands to \<open>Run\<close> is a list. The conversion of a configuration change to bytes is the protobuf
  library's and an argument too.
\<close>

section \<open>Queue items\<close>

datatype node_recv_msg_type = MsgTypeTick | MsgTypeProp | MsgTypeRecv | MsgTypeConf
  | MsgTypeAdvance | MsgTypeReady | MsgTypeStatus | MsgTypeStop

text \<open>
  What a \<open>void*\<close> body points to: a \<open>Message\<close>, a string (which is what \<open>Propose\<close> puts there),
  or nothing that was ever set (\<open>Tick\<close>).
\<close>

datatype node_body = BodyMessage message | BodyString bytes | BodyUnset

record node_recv_msg =
  nm_type :: node_recv_msg_type
  nm_body :: node_body

definition n_tick :: "int \<Rightarrow> node_recv_msg list \<Rightarrow> node_recv_msg list" where
  "n_tick rc queue =
     (let msg = \<lparr>nm_type = MsgTypeTick, nm_body = BodyUnset\<rparr>
      in if rc \<noteq> 0 then queue else queue @ [msg])"

definition n_propose :: "int \<Rightarrow> bytes \<Rightarrow> node_recv_msg list \<Rightarrow> bool rv \<times> node_recv_msg list" where
  "n_propose rc data queue =
     (let msg = \<lparr>nm_type = MsgTypeProp, nm_body = BodyString data\<rparr>
      in if rc \<noteq> 0 then (Returns False, queue) else (NoReturn, queue @ [msg]))"

section \<open>The loop\<close>

text \<open>\<open>(Message*)body\<close>, and the first access through it.\<close>

definition as_message :: "node_body \<Rightarrow> message option" where
  "as_message b = (case b of BodyMessage m \<Rightarrow> Some m | _ \<Rightarrow> None)"

definition n_item :: "env \<Rightarrow> node_recv_msg \<Rightarrow> node_body \<times> raft \<Rightarrow> (node_body \<times> raft) option" where
  "n_item g it s = (
     let (body, r) = s in
     case nm_type it of
       MsgTypeProp \<Rightarrow> do {
         msg \<leftarrow> as_message body;
         let msg = msg\<lparr>m_from := r_id r\<rparr>;
         (_, msg, r) \<leftarrow> r_step g msg r;
         Some (BodyMessage msg, r)
       }
     | MsgTypeRecv \<Rightarrow> do {
         msg \<leftarrow> as_message body;
         let (ref, r) = r_get_progress (m_from msg) r;
         if r_progress ref r \<noteq> None \<or> is_response_msg (m_type msg)
         then do { (_, msg, r) \<leftarrow> r_step g msg r; Some (BodyMessage msg, r) }
         else Some (body, r)
       }
     | MsgTypeTick \<Rightarrow> do { r \<leftarrow> r_tick g r; Some (body, r) }
     | _ \<Rightarrow> Some (body, r))"

text \<open>The message pointer is taken from the first item, before the loop.\<close>

definition n_run :: "env \<Rightarrow> bool \<Rightarrow> node_recv_msg list \<Rightarrow> raft \<Rightarrow> (int rv \<times> raft) option" where
  "n_run g stopped batch r =
     (if stopped then Some (Returns 0, r)
      else case batch of
        [] \<Rightarrow> None
      | it # _ \<Rightarrow> do {
          (_, r) \<leftarrow> for_each n_item g batch (nm_body it, r);
          Some (NoReturn, r)
        })"

section \<open>Starting a node\<close>

record peer =
  pe_id :: u64
  pe_context :: bytes

definition new_peer :: "u64 \<Rightarrow> peer" where
  "new_peer p_id = \<lparr>pe_id = p_id, pe_context = []\<rparr>"

text \<open>
  A \<open>Node\<close> object is known by the id of its queue. The assignment operator has an empty body,
  so that the target keeps the id it had.
\<close>

record node =
  nd_queue_id :: u64

definition n_assign :: "node \<Rightarrow> node \<Rightarrow> unit rv \<times> node" where
  "n_assign source target = (NoReturn, target)"

text \<open>
  One round of the bootstrap loop: the entry that adds the peer is built and given to the
  empty \<open>Append\<close>.
\<close>

definition n_bootstrap_peer :: "(conf_change \<Rightarrow> bytes) \<Rightarrow> env \<Rightarrow> peer \<Rightarrow> raft_log \<Rightarrow> raft_log option" where
  "n_bootstrap_peer serialize g x l = do {
     let conf_change = new_conf_change\<lparr>cc_type := ConfChangeAddNode, cc_node_id := pe_id x, cc_context := pe_context x\<rparr>;
     let log_entry = new_log_entry\<lparr>le_data := serialize conf_change, le_type := EntryConfChange, le_term := 1\<rparr>;
     li \<leftarrow> rl_last_index l;
     let log_entry = log_entry\<lparr>le_index := li + 1\<rparr>;
     let (_, l) = rl_append_one log_entry l;
     Some l
   }"

text \<open>
  Both start functions end by starting the execution queue of the node; \<open>new_id\<close> is what the
  library leaves in the id that it is given.
\<close>

definition n_start_node :: "(conf_change \<Rightarrow> bytes) \<Rightarrow> u64 \<Rightarrow> env \<Rightarrow> peer list \<Rightarrow> raft_log \<Rightarrow> raft
    \<Rightarrow> (node \<times> raft_log \<times> raft) option" where
  "n_start_node serialize new_id g peers l r = do {
     let r = r_become_follower (sub_call 0 g) 1 0 r;
     l \<leftarrow> for_each (n_bootstrap_peer serialize) (sub_call 1 g) peers l;
     li \<leftarrow> rl_last_index l;
     let l = rl_set_committed li l;
     let r = fold (\<lambda>x r. r_add_node (pe_id x) r) peers r;
     Some (\<lparr>nd_queue_id = new_id\<rparr>, l, r)
   }"

definition n_start :: "(conf_change \<Rightarrow> bytes) \<Rightarrow> u64 \<Rightarrow> env \<Rightarrow> peer list \<Rightarrow> raft_log \<Rightarrow> raft \<Rightarrow> node
    \<Rightarrow> (bool rv \<times> node \<times> raft_log \<times> raft) option" where
  "n_start serialize new_id g peers l r this = do {
     let r = r_become_follower (sub_call 0 g) 1 0 r;
     l \<leftarrow> for_each (n_bootstrap_peer serialize) (sub_call 1 g) peers l;
     li \<leftarrow> rl_last_index l;
     let l = rl_set_committed li l;
     let r = fold (\<lambda>x r. r_add_node (pe_id x) r) peers r;
     Some (NoReturn, this\<lparr>nd_queue_id := new_id\<rparr>, l, r)
   }"

text \<open>\<open>Init\<close> and \<open>RestartNode\<close> have empty bodies.\<close>

definition n_init :: "config \<Rightarrow> peer list \<Rightarrow> bool \<Rightarrow> node \<Rightarrow> bool rv \<times> node" where
  "n_init config peers restart_flag this = (NoReturn, this)"

definition n_restart_node :: "config \<Rightarrow> node rv" where
  "n_restart_node config = NoReturn"

section \<open>What a batch keeps\<close>

definition n_le :: "node_body \<times> raft \<Rightarrow> node_body \<times> raft \<Rightarrow> bool" where
  "n_le s t \<longleftrightarrow> raft_le (snd s) (snd t)"

lemma n_item_le: "post (n_item g it s) (n_le s)"
proof -
  have recv: "post (r_step g m t) (\<lambda>x. raft_le r (snd (snd x)))" if "raft_le r t" for m r t
    using that by (rule r_step_from_le)
  show ?thesis
    by (cases s) (auto simp: n_item_def n_le_def prod.case_eq_if recv r_tick_le r_get_progress_le
        intro!: postI [of "as_message _"] split: node_recv_msg_type.split)
qed

lemma n_le_refl: "n_le s s"
  by (simp add: n_le_def)

lemma n_le_trans: "n_le s t \<Longrightarrow> n_le t u \<Longrightarrow> n_le s u"
  unfolding n_le_def by (rule raft_le_trans)

interpretation node_batch: ordered_machine n_item n_le
  by unfold_locales (rule n_le_refl, erule (1) n_le_trans, rule n_item_le)

lemma n_item_role: "r_role_ok (snd s) \<Longrightarrow> post (n_item g it s) (\<lambda>t. r_role_ok (snd t))"
proof -
  assume ok: "r_role_ok (snd s)"
  have step: "post (r_step g m t) (\<lambda>x. r_role_ok (snd (snd x)))" if "r_role_ok t" for m t
    using r_step_moves [OF that] by (rule post_mono) (rule moves_to_ok)
  have tick: "post (r_tick g t) r_role_ok" if "r_role_ok t" for t
    using r_tick_moves [OF that] by (rule post_mono) (rule moves_to_ok)
  have get: "r_role_ok (snd (r_get_progress k t)) = r_role_ok t" for k t
    by (simp add: r_get_progress_def r_role_ok_def)
  show ?thesis
    using ok by (cases s) (auto simp: n_item_def prod.case_eq_if step tick get
        intro!: postI [of "as_message _"] split: node_recv_msg_type.split)
qed

interpretation node_roles: invariant_machine n_item "\<lambda>_. True" "\<lambda>s. r_role_ok (snd s)"
  by unfold_locales (rule n_item_role)


section \<open>Properties\<close>

definition idle_raft :: raft where
  "idle_raft = \<lparr>r_id = 1, r_term = 1, r_vote = 0, r_state = StateFollower, r_pre_vote = False,
     r_check_quorum = True, r_is_learner = False, r_max_msg_size = 100, r_prs = [(1, new_progress)],
     r_learner_prs = [], r_votes = [], r_msgs = [], r_lead = 0, r_lead_transferee = 0,
     r_tick_func = Some TickElection, r_step_func = Some StepFollower,
     r_election_elapsed = 0, r_heartbeat_elapsed = 0, r_heartbeat_timeout = 1, r_election_timeout = 10,
     r_randomized_election_timeout = 10, r_raftlog = static_raft_log\<rparr>"

abbreviation tick_item :: node_recv_msg where
  "tick_item \<equiv> \<lparr>nm_type = MsgTypeTick, nm_body = BodyUnset\<rparr>"

lemma idle_batch:
  "n_run (env_const 0) False [tick_item] idle_raft = Some (NoReturn, idle_raft\<lparr>r_election_elapsed := 1\<rparr>)"
  by (simp add: n_run_def n_item_def r_tick_def r_tick_election_def r_past_election_timeout_def
      int_inc_def int_add_def int_max_def idle_raft_def)

text \<open>C26: A batch of the queue, whatever it holds, moves the raft object along: the term and the
  configuration stay, the commit index and the progress of the peers do not go down, and the
  role fields keep agreeing.\<close>

theorem node_batch_keeps_raft:
  assumes "n_run g stopped batch r = Some (v, r')" and "r_role_ok r"
  shows "r_role_ok r' \<and> r_term r' = r_term r \<and> rl_committed (r_raftlog r) \<le> rl_committed (r_raftlog r')
    \<and> (\<forall>k p. om_find (r_prs r) k = Some p \<longrightarrow>
        (\<exists>p'. om_find (r_prs r') k = Some p' \<and> pr_match p \<le> pr_match p'))"
proof (cases "stopped")
  case True
  with assms show ?thesis by (auto simp: n_run_def)
next
  case False
  with assms(1) obtain b0 b where run: "for_each n_item g batch (b0, r) = Some (b, r')"
    by (auto simp: n_run_def bind_eq_Some_conv split: list.splits)
  have "raft_le r r'" using postD [OF node_batch.run_le run] by (simp add: n_le_def)
  moreover have "r_role_ok r'"
    using postD [OF node_roles.run_keeps run] assms(2) by (simp add: list.pred_True)
  ultimately show ?thesis
    by (auto simp: raft_le_def r_config_def rl_le_def pr_le_def dest: om_leD)
qed

theorem node_batch_keeps_raft_witness:
  "\<exists>r'. n_run (env_const 0) False [tick_item] idle_raft = Some (NoReturn, r') \<and> r_role_ok r' \<and> r_term r' = 1"
proof -
  have "r_role_ok idle_raft" "r_term idle_raft = 1" by (simp_all add: r_role_ok_def idle_raft_def)
  with node_batch_keeps_raft [OF idle_batch this(1)] idle_batch show ?thesis by metis
qed

text \<open>\<open>Run\<close> reads the body of the first item only. Two batches with the same first body and the
  same item types have the same effect, so that every message behind the first one in a batch is
  lost and the first one is handled in its place.\<close>

theorem node_run_reads_first_body:
  assumes "batch = it # rest" and "batch' = it' # rest'" and "nm_body it = nm_body it'"
    and "map nm_type batch = map nm_type batch'"
  shows "n_run g stopped batch r = n_run g stopped batch' r"
proof -
  have item: "n_item g x = n_item g y" if "nm_type x = nm_type y" for g x y
    using that by (intro ext) (simp add: n_item_def)
  have "for_each n_item g xs s = for_each n_item g ys s" if "map nm_type xs = map nm_type ys" for g xs ys s
    using that
  proof (induction xs arbitrary: g ys s)
    case Nil
    then show ?case by simp
  next
    case (Cons x xs)
    then obtain y ys' where ys: "ys = y # ys'" "nm_type x = nm_type y" "map nm_type xs = map nm_type ys'" by auto
    with item [OF ys(2)] Cons.IH [OF ys(3)] show ?case by simp
  qed
  from this [OF assms(4)] show ?thesis by (simp add: n_run_def assms(1-3))
qed

theorem node_run_reads_first_body_witness:
  "n_run (env_const 0) False [tick_item, \<lparr>nm_type = MsgTypeReady, nm_body = BodyUnset\<rparr>] idle_raft
    = n_run (env_const 0) False [tick_item, \<lparr>nm_type = MsgTypeReady, nm_body = BodyMessage new_message\<rparr>] idle_raft"
  by (rule node_run_reads_first_body [OF refl refl]) simp_all

text \<open>A batch whose first body is not a message (the string that \<open>Propose\<close> enqueues, or the unset
  body of a tick) and that holds a proposal or a received message ends in an access through that
  pointer, which is undefined. In particular no call of \<open>Propose\<close> can be handled.\<close>

theorem node_batch_without_message_undefined:
  assumes "as_message (nm_body it) = None" and "x \<in> set (it # rest)"
    and "nm_type x = MsgTypeProp \<or> nm_type x = MsgTypeRecv"
  shows "n_run g False (it # rest) r = None"
proof -
  have "for_each n_item g xs (b, r) = None" if "as_message b = None" "x \<in> set xs" for g xs b r
    using that
  proof (induction xs arbitrary: g r)
    case Nil
    then show ?case by simp
  next
    case (Cons y ys)
    show ?case
    proof (cases "nm_type y = MsgTypeProp \<or> nm_type y = MsgTypeRecv")
      case True
      with Cons.prems(1) show ?thesis by (auto simp: n_item_def)
    next
      case False
      with Cons.prems(2) assms(3) have "x \<in> set ys" by auto
      moreover have "n_item h y (b, r) = None \<or> (\<exists>r'. n_item h y (b, r) = Some (b, r'))" for h
        using False by (cases "r_tick h r") (auto simp: n_item_def split: node_recv_msg_type.split)
      ultimately show ?thesis
        using Cons.IH [OF Cons.prems(1)] by (metis bind.bind_lunit bind.bind_lzero for_each.simps(2))
    qed
  qed
  from this [OF assms(1,2)] show ?thesis by (simp add: n_run_def)
qed

theorem node_batch_without_message_undefined_witness:
  "n_run (env_const 0) False (snd (n_propose 0 [104, 105] [])) idle_raft = None"
proof -
  have "snd (n_propose 0 [104, 105] []) = [\<lparr>nm_type = MsgTypeProp, nm_body = BodyString [104, 105]\<rparr>]"
    by (simp add: n_propose_def)
  then show ?thesis
    using node_batch_without_message_undefined [of "\<lparr>nm_type = MsgTypeProp, nm_body = BodyString [104, 105]\<rparr>"
        "\<lparr>nm_type = MsgTypeProp, nm_body = BodyString [104, 105]\<rparr>" "[]"]
    by (simp add: as_message_def)
qed


lemma n_bootstrap_peers:
  assumes "rl_last_index l = Some li"
  shows "for_each (n_bootstrap_peer serialize) g peers l = Some l"
proof -
  have "n_bootstrap_peer serialize h x l = Some l" for h x
    using assms by (simp add: n_bootstrap_peer_def rl_append_one_def)
  then show ?thesis by (induction peers arbitrary: g) simp_all
qed

text \<open>Over a well-formed storage, starting a node marks the whole log as committed and becomes
  follower, but the entries that should add the peers are in no log and no peer is added.\<close>

theorem node_start_commits_log:
  assumes "ms_wf m" and "rl_storage l = Some (ms_storage m)" and "log_ok (ms_view m) (rl_unstable l)"
  shows "n_start serialize new_id g peers l r this = Some (NoReturn, this\<lparr>nd_queue_id := new_id\<rparr>,
    l\<lparr>rl_committed := of_nat (log_last (ms_view m) (rl_unstable l))\<rparr>, r_become_follower (sub_call 0 g) 1 0 r)"
proof -
  note li = ms.rl_last_index_valid [OF assms]
  have "fold (\<lambda>x r. r_add_node (pe_id x) r) peers s = s" for s
    by (induction peers arbitrary: s) (simp_all add: r_add_node_def)
  then show ?thesis
    by (simp add: n_start_def n_bootstrap_peers [OF li] li rl_set_committed_def)
qed

theorem node_start_commits_log_witness:
  "\<exists>r'. n_start (\<lambda>c. []) 7 (env_const 0) [new_peer 1] sample_log idle_raft \<lparr>nd_queue_id = 0\<rparr>
    = Some (NoReturn, \<lparr>nd_queue_id = 7\<rparr>, sample_log\<lparr>rl_committed := 5\<rparr>, r')"
  using node_start_commits_log [OF sample_storage_wf sample_log_storage sample_log_ok,
      of "\<lambda>c. []" 7 "env_const 0" "[new_peer 1]" idle_raft "\<lparr>nd_queue_id = 0\<rparr>"] by simp

text \<open>No code gives the log of \<open>GetRaftLog\<close> a storage before a node starts; on that log both
  start functions dereference the null pointer, for every list of peers.\<close>

theorem node_start_without_storage:
  "n_start serialize new_id g peers static_raft_log r this = None
    \<and> n_start_node serialize new_id g peers static_raft_log r = None"
proof -
  have li: "rl_last_index static_raft_log = None"
    by (simp add: rl_last_index_def static_raft_log_def new_unstable_def un_maybe_last_index_def)
  then have "for_each (n_bootstrap_peer serialize) h peers static_raft_log
      = (if peers = [] then Some static_raft_log else None)" for h
    by (cases peers) (simp_all add: n_bootstrap_peer_def)
  with li show ?thesis by (simp add: n_start_def n_start_node_def)
qed

end
