(* ===== verification/Node_Definedness.thy ===== *)
theory Node_Definedness
  imports Raft_Node Raft_Definedness
begin

text \<open>
  The faults of \<open>Node::Run\<close> that the model checks. The loop adds one to those of the raft object:
  the access through the body of the first item, when that is not a message. As in
  \<open>Raft_Definedness\<close>, missing returns and reads of unset variables are not counted.
\<close>

section \<open>One item as events of the raft object\<close>

lemma ready_get_progress: "ready_to_run r \<Longrightarrow> ready_to_run (snd (r_get_progress k r))"
proof -
  assume ok: "ready_to_run r"
  then have r: "timed r" "clock_ok r" "r_role_ok r"
    by (auto simp: ready_to_run_def timed_def raft_typed_def)
  have "r_role_ok (snd (r_get_progress k r))"
    using r(3) by (simp add: r_get_progress_def r_role_ok_def)
  moreover have "clock_ok (snd (r_get_progress k r))" using r(2) by simp
  ultimately have "timed (snd (r_get_progress k r))"
    by (intro timed_le [OF r_get_progress_le [OF raft_le_refl] r(1)])
  with ok show ?thesis by (simp add: ready_to_run_def able_get_progress)
qed

text \<open>The step of an item that reaches the raft object, as an event of \<open>Raft_Invariants\<close>.\<close>

lemma n_item_event:
  "n_item g it (b, r) = None \<Longrightarrow>
    ((nm_type it = MsgTypeProp \<or> nm_type it = MsgTypeRecv) \<and> as_message b = None)
    \<or> (nm_type it = MsgTypeTick \<and> r_event g EvTick r = None)
    \<or> (\<exists>msg. as_message b = Some msg
        \<and> (r_event g (EvMsg (msg\<lparr>m_from := r_id r\<rparr>)) r = None
          \<or> r_event g (EvMsg msg) (snd (r_get_progress (m_from msg) r)) = None))"
  by (cases "as_message b")
    (auto simp: n_item_def r_event_def prod.case_eq_if bind_eq_None_conv
      split: node_recv_msg_type.splits if_splits)

definition n_ready :: "node_body \<times> raft \<Rightarrow> bool" where
  "n_ready s \<longleftrightarrow> ready_to_run (snd s)"

lemma n_item_ready: "rand_ok g \<Longrightarrow> n_ready s \<Longrightarrow> post (n_item g it s) n_ready"
proof -
  assume g: "rand_ok g" and ok: "n_ready s"
  have step: "post (r_step g m t) (\<lambda>x. ready_to_run (snd (snd x)))" if "ready_to_run t" for m t
    using r_event_ready [OF g that, of "EvMsg m"] by (simp add: r_event_def prod.case_eq_if)
  have tick: "post (r_tick g t) ready_to_run" if "ready_to_run t" for t
    using r_event_ready [OF g that, of EvTick] by (simp add: r_event_def)
  show ?thesis
    using ok by (cases s) (auto simp: n_item_def n_ready_def prod.case_eq_if step tick ready_get_progress
        intro!: postI [of "as_message _"] split: node_recv_msg_type.split)
qed

interpretation node_ready: supplied_machine n_item rand_ok "\<lambda>_. True" n_ready
  by unfold_locales (auto intro: n_item_ready)

text \<open>A message body is never replaced by anything but a message.\<close>

lemma n_item_message: "as_message (fst s) \<noteq> None \<Longrightarrow> post (n_item g it s) (\<lambda>t. as_message (fst t) \<noteq> None)"
  by (cases s) (auto simp: n_item_def prod.case_eq_if as_message_def [of "BodyMessage _"]
      intro!: postI split: node_recv_msg_type.split)

interpretation node_messages: invariant_machine n_item "\<lambda>_. True" "\<lambda>s. as_message (fst s) \<noteq> None"
  by unfold_locales (rule n_item_message)

text \<open>Looking up a progress, which can add one, does not change what the vote counter reads.\<close>

lemma r_poll_get_progress: "defined (r_poll g peer t v (snd (r_get_progress k r))) = defined (r_poll g peer t v r)"
  by (cases "om_find (r_votes r) peer") (simp_all add: r_poll_def r_get_progress_def)

lemma grant_overflows_get_progress: "grant_overflows msg (snd (r_get_progress k r)) = grant_overflows msg r"
proof -
  have "r_poll g p t v (snd (r_get_progress k r)) = None \<longleftrightarrow> r_poll g p t v r = None" for g p t v
    using r_poll_get_progress by (metis defined_def)
  moreover have "r_step_func (snd (r_get_progress k r)) = r_step_func r" by (simp add: r_get_progress_def)
  ultimately show ?thesis by (simp only: grant_overflows_def)
qed

text \<open>The two counters, as they are met in the loop.\<close>

definition counters_fail :: "node_recv_msg \<Rightarrow> node_body \<Rightarrow> raft \<Rightarrow> bool" where
  "counters_fail it b r \<longleftrightarrow>
     (nm_type it = MsgTypeTick \<and> r_state r = StateLeader \<and> int_max - 1 \<le> r_heartbeat_elapsed r)
     \<or> (\<exists>msg h k. as_message b = Some msg \<and> r_step_func r = Some StepCandidate
         \<and> (m_type msg = MsgVoteResp \<or> m_type msg = MsgPreVoteResp)
         \<and> r_poll h k (m_type msg) (\<not> m_reject msg) r = None)"

lemma n_item_undefined:
  assumes "n_item g it (b, r) = None" and "ready_to_run r"
  shows "((nm_type it = MsgTypeProp \<or> nm_type it = MsgTypeRecv) \<and> as_message b = None) \<or> counters_fail it b r"
proof -
  have event: "grant_overflows msg s" if "r_event g (EvMsg msg) s = None" "ready_to_run s" for msg s
    using r_event_undefined [OF that] by simp
  have poll: "(\<exists>h k. r_poll h k (m_type msg) (\<not> m_reject msg) r = None)
      \<and> r_step_func r = Some StepCandidate \<and> (m_type msg = MsgVoteResp \<or> m_type msg = MsgPreVoteResp)"
    if "r_event g (EvMsg (msg\<lparr>m_from := r_id r\<rparr>)) r = None
      \<or> r_event g (EvMsg msg) (snd (r_get_progress (m_from msg) r)) = None" for msg
    using that
  proof
    assume "r_event g (EvMsg (msg\<lparr>m_from := r_id r\<rparr>)) r = None"
    from event [OF this assms(2)] show ?thesis by (auto simp: grant_overflows_def)
  next
    assume "r_event g (EvMsg msg) (snd (r_get_progress (m_from msg) r)) = None"
    from event [OF this ready_get_progress [OF assms(2)]] have "grant_overflows msg r"
      by (simp only: grant_overflows_get_progress)
    then show ?thesis by (auto simp: grant_overflows_def)
  qed
  from n_item_event [OF assms(1)] show ?thesis
    using r_event_undefined [OF _ assms(2), of g EvTick] poll unfolding counters_fail_def by blast
qed

section \<open>Properties\<close>

text \<open>C27: Which faults the handling of a batch of the queue can meet, where a fault is one that the
  model checks: an access outside a container, a pointer that does not point to a message, an empty
  function, a signed overflow. Missing returns (\<open>Run\<close> and the step functions have none) and reads
  of unset variables (\<open>grant\<close>) are not counted; the model goes on from them with every value. Take a raft object over a
  readable log, with an id that is one of its own peers and well-formed timers, maps and roles. If
  a batch meets a fault, then its first body is not a message although some item of the batch is a
  proposal or a received message, or it has a part without fault after which a leader's tick overflows
  the heartbeat timer, or after which a candidate counts votes from an uninitialised start that is
  too large. In the last two cases the first body is what decides the vote answer, whatever
  the item carries.\<close>

theorem node_batch_faults:
  assumes "ms_wf m" and "rl_storage (r_raftlog r) = Some (ms_storage m)"
    and "log_ok (ms_view m) (rl_unstable (r_raftlog r))"
    and "raft_typed r" and "clock_ok r" and "r_promotable r" and "r_id r \<noteq> 0" and "length (r_prs r) < 2147483648"
    and "rand_ok g" and "n_run g False (it # rest) r = None"
  shows "(as_message (nm_body it) = None \<and> (\<exists>x \<in> set (it # rest). nm_type x = MsgTypeProp \<or> nm_type x = MsgTypeRecv))
    \<or> (\<exists>xs x ys b t. it # rest = xs @ x # ys \<and> for_each n_item g xs (nm_body it, r) = Some (b, t)
        \<and> ((nm_type x = MsgTypeTick \<and> r_state t = StateLeader \<and> int_max - 1 \<le> r_heartbeat_elapsed t)
          \<or> (\<exists>msg h k. as_message b = Some msg \<and> r_step_func t = Some StepCandidate
              \<and> (m_type msg = MsgVoteResp \<or> m_type msg = MsgPreVoteResp)
              \<and> r_poll h k (m_type msg) (\<not> m_reject msg) t = None)))"
    (is "?nomsg \<or> _")
proof -
  have ready: "n_ready (nm_body it, r)"
    using assms(4-8) log_reads_storage [OF assms(1-3)]
    by (auto simp: n_ready_def ready_to_run_def timed_def able_def peers_ok_def raft_typed_def r_promotable_def om_find_def)
  have "for_each n_item g (it # rest) (nm_body it, r) = None"
    using assms(10) by (cases "for_each n_item g (it # rest) (nm_body it, r)")
      (simp_all add: n_run_def prod.case_eq_if del: for_each.simps)
  from node_ready.run_undefined_good [OF assms(9) _ ready this]
  obtain xs x ys b t h where split: "it # rest = xs @ x # ys" "for_each n_item g xs (nm_body it, r) = Some (b, t)"
    and t: "n_ready (b, t)" "n_item h x (b, t) = None" by (auto simp: list.pred_True)
  have "as_message (nm_body it) = None" if "as_message b = None"
    using postD [OF node_messages.run_keeps split(2)] that
    by (cases "as_message (nm_body it)") (simp_all add: list.pred_True)
  moreover have "x \<in> set (it # rest)" by (simp add: split(1))
  ultimately have "?nomsg \<or> counters_fail x b t"
    using n_item_undefined [OF t(2)] t(1) by (auto simp: n_ready_def)
  with split show ?thesis unfolding counters_fail_def by blast
qed

text \<open>The witness is a candidate that receives its first vote, counted from the largest \<open>int\<close>.\<close>

abbreviation vote_item :: node_recv_msg where
  "vote_item \<equiv> \<lparr>nm_type = MsgTypeRecv, nm_body = BodyMessage sample_vote\<rparr>"

theorem node_batch_faults_witness:
  "\<exists>h k. r_poll h k MsgVoteResp True sample_candidate = None"
proof -
  have "r_get_progress 2 sample_candidate = (InPrs 2, sample_candidate)"
    by (simp add: r_get_progress_def sample_defs om_find_def)
  then have run: "n_run (env_const 2147483647) False [vote_item] sample_candidate = None"
    using sample_candidate_counts
    by (simp add: n_run_def n_item_def as_message_def is_response_msg_def) (simp add: sample_vote_def)
  from node_batch_faults [OF sample_storage_wf _ _ sample_candidate_ready rand_ok_env_const run,
      unfolded sample_candidate_log, OF sample_log_storage sample_log_ok]
  show ?thesis
    by (auto simp: append_eq_Cons_conv Cons_eq_append_conv as_message_def sample_vote_def new_message_def)
qed

end
