(* ===== verification/Node_Queue.thy ===== *)
theory Node_Queue
  imports Node_Definedness
begin

text \<open>
  The consumer of a node's queue calls \<open>Run\<close> with one batch after another. When the batches are
  such that the shared message pointer does no harm, ticks only or a single message of a known
  peer, the node is the raft object that sees the same events one by one.
\<close>

section \<open>Supplies put together\<close>

definition join_env :: "env \<Rightarrow> env \<Rightarrow> env" where
  "join_env g h = \<lparr>ev_indet = (\<lambda>p. case p of [] \<Rightarrow> 0 | k # p \<Rightarrow> ev_indet (if k = 0 then g else h) p),
     ev_rand = (\<lambda>p n. case p of [] \<Rightarrow> 0 | k # p \<Rightarrow> ev_rand (if k = 0 then g else h) p n)\<rparr>"

lemma sub_call_join [simp]: "sub_call 0 (join_env g h) = g" "sub_call 1 (join_env g h) = h"
  "sub_call (Suc 0) (join_env g h) = h"
  by (simp_all add: sub_call_def join_env_def)

lemma rand_ok_join: "rand_ok g \<Longrightarrow> rand_ok h \<Longrightarrow> rand_ok (join_env g h)"
  by (auto simp: rand_ok_def join_env_def word_gt_0 split: list.split)

text \<open>The first \<open>n\<close> events draw on \<open>g\<close>, the rest on \<open>h\<close>.\<close>

primrec splice_env :: "nat \<Rightarrow> env \<Rightarrow> env \<Rightarrow> env" where
  "splice_env 0 g h = h"
| "splice_env (Suc n) g h = join_env (sub_call 0 g) (splice_env n (sub_call 1 g) h)"

lemma rand_ok_splice: "rand_ok g \<Longrightarrow> rand_ok h \<Longrightarrow> rand_ok (splice_env n g h)"
  by (induction n arbitrary: g) (simp_all add: rand_ok_join rand_ok_sub_call)

lemma for_each_splice:
  "for_each f (splice_env (length xs) g h) (xs @ ys) s = Option.bind (for_each f g xs s) (for_each f h ys)"
proof (induction xs arbitrary: g s)
  case Nil
  then show ?case by simp
next
  case (Cons x xs)
  then show ?case by (cases "f (sub_call 0 g) x s") simp_all
qed

section \<open>Batches and events\<close>

definition n_run_batches :: "env \<Rightarrow> node_recv_msg list list \<Rightarrow> raft \<Rightarrow> raft option" where
  "n_run_batches = for_each (\<lambda>g batch r. do { (_, r) \<leftarrow> n_run g False batch r; Some r })"

definition batch_events :: "node_recv_msg list \<Rightarrow> raft_event list" where
  "batch_events = map (\<lambda>it. case as_message (nm_body it) of
     Some m \<Rightarrow> if nm_type it = MsgTypeRecv then EvMsg m else EvTick | None \<Rightarrow> EvTick)"

definition plain_batch :: "u64 set \<Rightarrow> node_recv_msg list \<Rightarrow> bool" where
  "plain_batch peers batch \<longleftrightarrow>
     (batch \<noteq> [] \<and> (\<forall>it\<in>set batch. nm_type it = MsgTypeTick))
     \<or> (\<exists>m. batch = [\<lparr>nm_type = MsgTypeRecv, nm_body = BodyMessage m\<rparr>] \<and> m_from m \<in> peers)"

definition members :: "raft \<Rightarrow> u64 set" where
  "members r = set (om_keys (r_prs r))"

lemma members_le: "raft_le r t \<Longrightarrow> members r \<subseteq> members t"
  by (fastforce simp: members_def set_om_keys raft_le_def om_le_def)

lemma plain_batch_mono: "plain_batch A b \<Longrightarrow> A \<subseteq> B \<Longrightarrow> plain_batch B b"
  by (auto simp: plain_batch_def)

lemma ticks_run:
  "\<forall>it\<in>set batch. nm_type it = MsgTypeTick \<Longrightarrow>
    for_each n_item g batch (b, r) = map_option (Pair b) (r_run g (batch_events batch) r)"
proof (induction batch arbitrary: g r)
  case Nil
  then show ?case by (simp add: r_run_def batch_events_def)
next
  case (Cons it batch)
  then have "nm_type it = MsgTypeTick" by simp
  with Cons show ?case
    by (cases "r_tick (sub_call 0 g) r")
      (auto simp: r_run_def batch_events_def n_item_def r_event_def split: option.split)
qed

lemma message_runs:
  assumes "m_from m \<in> members r"
  shows "n_item g \<lparr>nm_type = MsgTypeRecv, nm_body = BodyMessage m\<rparr> (BodyMessage m, r)
    = do { (_, m', t) \<leftarrow> r_step g m r; Some (BodyMessage m', t) }"
proof -
  have "r_get_progress (m_from m) r = (InPrs (m_from m), r)" "r_progress (InPrs (m_from m)) r \<noteq> None"
    using assms by (auto simp: members_def set_om_keys r_get_progress_def r_progress_def)
  then show ?thesis by (simp add: n_item_def as_message_def)
qed

lemma plain_batch_runs:
  assumes "plain_batch (members r) batch"
  shows "do { (_, t) \<leftarrow> n_run g False batch r; Some t } = r_run g (batch_events batch) r"
proof (cases "\<forall>it\<in>set batch. nm_type it = MsgTypeTick")
  case True
  with assms obtain it rest where "batch = it # rest" by (cases batch) (auto simp: plain_batch_def)
  with ticks_run [OF True, of g "nm_body it" r] show ?thesis
    by (cases "r_run g (batch_events batch) r") (simp_all add: n_run_def del: for_each.simps)
next
  case False
  with assms obtain m where batch: "batch = [\<lparr>nm_type = MsgTypeRecv, nm_body = BodyMessage m\<rparr>]"
    and m: "m_from m \<in> members r" by (auto simp: plain_batch_def)
  from message_runs [OF m] show ?thesis
    by (cases "r_step (sub_call 0 g) m r")
      (auto simp: n_run_def batch batch_events_def as_message_def r_run_def r_event_def prod.case_eq_if)
qed

section \<open>Properties\<close>

text \<open>C28: The queue is transparent on plain batches. However the consumer cuts the queue into batches,
  if each holds only ticks or one message of a known peer, then handling them is exactly the run of
  the raft object over the same ticks and messages in the order of the queue, the faults
  that the model checks included; and where the random numbers of the one are in range, so are those of the other.\<close>

theorem node_queue_refines_raft:
  assumes "\<forall>b\<in>set batches. plain_batch (members r) b"
  shows "\<exists>h. n_run_batches g batches r = r_run h (concat (map batch_events batches)) r \<and> (rand_ok g \<longrightarrow> rand_ok h)"
  using assms
proof (induction batches arbitrary: g r)
  case Nil
  then show ?case by (auto simp: n_run_batches_def r_run_def)
next
  case (Cons b bs)
  let ?g = "sub_call 0 g" and ?rest = "concat (map batch_events bs)"
  have run: "n_run_batches g (b # bs) r = Option.bind (r_run ?g (batch_events b) r) (n_run_batches (sub_call 1 g) bs)"
    using plain_batch_runs [of r b ?g] Cons.prems by (simp add: n_run_batches_def)
  obtain h where h: "Option.bind (r_run ?g (batch_events b) r) (n_run_batches (sub_call 1 g) bs)
      = Option.bind (r_run ?g (batch_events b) r) (r_run h ?rest)" and ok: "rand_ok g \<longrightarrow> rand_ok h"
  proof (cases "r_run ?g (batch_events b) r")
    case None
    with that show thesis by auto
  next
    case (Some t)
    then have "members r \<subseteq> members t" by (intro members_le r_run_le)
    then have "\<forall>x\<in>set bs. plain_batch (members t) x" using Cons.prems by (auto intro: plain_batch_mono)
    from Cons.IH [OF this, of "sub_call 1 g"] obtain h where
      "n_run_batches (sub_call 1 g) bs t = r_run h ?rest t" "rand_ok (sub_call 1 g) \<longrightarrow> rand_ok h" by blast
    with Some that show thesis by (auto intro: rand_ok_sub_call)
  qed
  let ?h = "splice_env (length (batch_events b)) ?g h"
  have "n_run_batches g (b # bs) r = r_run ?h (concat (map batch_events (b # bs))) r"
    using run h by (simp add: r_run_def for_each_splice)
  moreover have "rand_ok g \<longrightarrow> rand_ok ?h" using ok by (auto intro: rand_ok_splice rand_ok_sub_call)
  ultimately show ?case by blast
qed

text \<open>The witness is a queue of two ticks and a vote request, cut behind the first tick.\<close>

theorem node_queue_refines_raft_witness:
  "\<exists>h. n_run_batches (env_const 0) [[tick_item], [tick_item], [vote_item]] sample_candidate
    = r_run h [EvTick, EvTick, EvMsg sample_vote] sample_candidate"
proof -
  have "\<forall>b\<in>set [[tick_item], [tick_item], [vote_item]]. plain_batch (members sample_candidate) b"
    by (simp add: plain_batch_def members_def sample_vote_def) (simp add: sample_defs om_keys_def)
  from node_queue_refines_raft [OF this, of "env_const 0"] show ?thesis by (auto simp: batch_events_def as_message_def)
qed

end
