(* ===== verification/Raft_Cluster.thy ===== *)
theory Raft_Cluster
  imports Raft_Definedness
begin

text \<open>
  A closed cluster of nodes that run the \<open>Raft\<close> class: the timers tick, clients propose, and any
  message in the outgoing queue of some node may be delivered to the node it is addressed to,
  at any time, in any order, any number of times, or never. This is what the surrounding queue
  and transport are for; the model asks nothing else of them.
\<close>

section \<open>The cluster\<close>

text \<open>
  \<open>good\<close> is what a theorem may assume of the values the code does not determine.
\<close>

inductive cluster_step :: "(env \<Rightarrow> bool) \<Rightarrow> raft list \<Rightarrow> raft list \<Rightarrow> bool" for good where
  tick: "i < length c \<Longrightarrow> good g \<Longrightarrow> r_event g EvTick (c ! i) = Some r \<Longrightarrow> cluster_step good c (c[i := r])"
| propose: "i < length c \<Longrightarrow> m_type m = MsgProp \<Longrightarrow> good g \<Longrightarrow> r_event g (EvMsg m) (c ! i) = Some r
    \<Longrightarrow> cluster_step good c (c[i := r])"
| deliver: "i < length c \<Longrightarrow> j < length c \<Longrightarrow> m \<in> set (r_msgs (c ! j)) \<Longrightarrow> m_to m = r_id (c ! i)
    \<Longrightarrow> good g \<Longrightarrow> r_event g (EvMsg m) (c ! i) = Some r \<Longrightarrow> cluster_step good c (c[i := r])"

inductive_cases cluster_step_cases: "cluster_step good c c'"

abbreviation cluster_run :: "(env \<Rightarrow> bool) \<Rightarrow> raft list \<Rightarrow> raft list \<Rightarrow> bool" where
  "cluster_run good \<equiv> (cluster_step good)\<^sup>*\<^sup>*"

text \<open>The events a node sees in a cluster whose queues hold only its own kinds of messages.\<close>

definition cluster_event :: "raft_event \<Rightarrow> bool" where
  "cluster_event ev = (case ev of EvTick \<Rightarrow> True | EvMsg m \<Rightarrow> m_type m \<in> insert MsgProp own_messages)"

text \<open>A node that stays out of every leader and every append.\<close>

definition quiet_node :: "raft \<Rightarrow> bool" where
  "quiet_node r \<longleftrightarrow> r_role_ok r \<and> r_id r \<noteq> 0 \<and> r_step_func r \<noteq> Some StepLeader
     \<and> (\<forall>m\<in>set (r_msgs r). m_type m \<in> own_messages)"

section \<open>One event of a quiet node\<close>

lemma r_step_hup_log: "r_raftlog (r_step_hup g r) = r_raftlog r"
  by (simp add: r_step_hup_def r_campaign_def r_campaign_fold r_become_candidate_def r_reset_def
      r_reset_randomized_election_timeout_def)

lemma r_step_vote_log: "r_step_vote g msg r = Some r' \<Longrightarrow> r_raftlog r' = r_raftlog r"
  by (auto simp: r_step_vote_def bind_eq_Some_conv split: if_splits)

lemma r_step_quiet_log:
  assumes "r_step g msg r = Some (v, m, r')" and "r_step_func r \<noteq> Some StepLeader"
    and "m_type msg \<in> {MsgHup, MsgProp, MsgVote, MsgAppResp}"
  shows "r_raftlog r' = r_raftlog r"
  using assms
  by (auto simp: r_step_def r_step_hup_log r_call_step_func_def r_step_follower_def r_step_candidate_def
      bind_eq_Some_conv dest: r_step_vote_log split: step_func.splits)
    (use step_func.exhaust in blast)+

lemma quiet_event_log:
  assumes "r_event g ev r = Some r'" and "quiet_node r" and "cluster_event ev"
  shows "r_raftlog r' = r_raftlog r"
proof (cases ev)
  case EvTick
  with assms have "r_tick_election g r = Some r'"
    by (auto simp: r_event_def r_tick_def r_role_ok_def quiet_node_def)
  then show ?thesis
    by (auto simp: r_tick_election_def bind_eq_Some_conv r_step_def r_step_hup_log split: if_splits)
next
  case (EvMsg msg)
  with assms(1) obtain v m where "r_step g msg r = Some (v, m, r')"
    by (auto simp: r_event_def bind_eq_Some_conv)
  with assms(2,3) EvMsg show ?thesis
    by (auto simp: quiet_node_def cluster_event_def intro!: r_step_quiet_log)
qed

lemma quiet_event_follows:
  assumes "r_event g ev r = Some r'" and "quiet_node r" and "cluster_event ev"
  shows "r_step_func r' \<noteq> Some StepLeader"
proof (cases ev)
  case EvTick
  with assms have "r_tick_election g r = Some r'"
    by (auto simp: r_event_def r_tick_def r_role_ok_def quiet_node_def)
  with assms(2) show ?thesis
    using r_step_hup_step_func [of g "r\<lparr>r_election_elapsed := 0\<rparr>"]
    by (auto simp: r_tick_election_def bind_eq_Some_conv r_step_def quiet_node_def split: if_splits)
next
  case (EvMsg msg)
  with assms(1) obtain v m where "r_step g msg r = Some (v, m, r')"
    by (auto simp: r_event_def bind_eq_Some_conv)
  with assms(2,3) EvMsg show ?thesis
    using r_step_wins [of g msg r v m r'] by (auto simp: quiet_node_def cluster_event_def)
qed

lemma quiet_event:
  assumes "r_event g ev r = Some r'" and "quiet_node r" and "cluster_event ev"
  shows "quiet_node r'"
proof -
  have "r_role_ok r'"
    using postD [OF r_event_moves assms(1)] assms(2) by (auto simp: quiet_node_def dest: moves_to_ok)
  moreover have "r_id r' = r_id r"
    using postD [OF r_event_le assms(1)] by (rule raft_le_id)
  moreover have "\<forall>m\<in>set (r_msgs r'). m_type m \<in> own_messages"
    using postD [OF r_event_sends assms(1)] assms(2) by (auto simp: sends_only_def quiet_node_def)
  ultimately show ?thesis
    using quiet_event_follows [OF assms] assms(2) by (simp add: quiet_node_def)
qed

section \<open>Cluster runs\<close>

text \<open>Every step of a quiet cluster is a cluster event of one node.\<close>

lemma cluster_step_event:
  assumes "cluster_step good c c'" and "\<forall>r\<in>set c. quiet_node r"
  shows "\<exists>i g ev r. i < length c \<and> good g \<and> cluster_event ev \<and> r_event g ev (c ! i) = Some r \<and> c' = c[i := r]"
  using assms(1)
proof (cases rule: cluster_step.cases)
  case (tick i g r)
  then show ?thesis by (intro exI [of _ i] exI [of _ g] exI [of _ EvTick]) (simp add: cluster_event_def)
next
  case (propose i m g r)
  then show ?thesis by (intro exI [of _ i] exI [of _ g] exI [of _ "EvMsg m"]) (simp add: cluster_event_def)
next
  case (deliver i j m g r)
  then have "m_type m \<in> own_messages" using assms(2) by (auto simp: quiet_node_def)
  with deliver show ?thesis
    by (intro exI [of _ i] exI [of _ g] exI [of _ "EvMsg m"]) (auto simp: cluster_event_def)
qed

lemma cluster_step_quiet:
  assumes "cluster_step good c c'" and "\<forall>r\<in>set c. quiet_node r"
  shows "(\<forall>r\<in>set c'. quiet_node r) \<and> map r_raftlog c' = map r_raftlog c \<and> map r_id c' = map r_id c"
proof -
  from cluster_step_event [OF assms] obtain i g ev r where
    i: "i < length c" "cluster_event ev" "r_event g ev (c ! i) = Some r" "c' = c[i := r]" by blast
  have q: "quiet_node (c ! i)" using assms(2) i(1) by simp
  have "r_raftlog r = r_raftlog (c ! i)" "r_id r = r_id (c ! i)" "quiet_node r"
    using quiet_event_log [OF i(3) q i(2)] postD [OF r_event_le i(3)] quiet_event [OF i(3) q i(2)]
    by (auto dest: raft_le_id)
  with assms(2) i show ?thesis
    using set_update_subset_insert [of c i r] by (auto simp: map_update list_update_same_conv)
qed

text \<open>In a closed cluster whose nodes have ids and start as followers with empty queues, no run ever
  elects a leader, no append and no vote response is ever in flight, and the logs and commit
  indices of all nodes stay what they were: the votes that nodes grant are never answered, and
  nothing else makes a leader.\<close>

theorem cluster_never_progresses:
  assumes "cluster_run good c c'" and "\<forall>r\<in>set c. r_role_ok r \<and> r_id r \<noteq> 0 \<and> r_step_func r = Some StepFollower \<and> r_msgs r = []"
  shows "(\<forall>r\<in>set c'. r_state r \<noteq> StateLeader \<and> (\<forall>m\<in>set (r_msgs r). m_type m = MsgVote \<or> m_type m = MsgAppResp))
    \<and> map r_raftlog c' = map r_raftlog c"
proof -
  have "\<forall>r\<in>set c. quiet_node r" using assms(2) by (auto simp: quiet_node_def)
  with assms(1) have "(\<forall>r\<in>set c'. quiet_node r) \<and> map r_raftlog c' = map r_raftlog c"
    by (induction rule: rtranclp_induct) (auto dest!: cluster_step_quiet)
  then show ?thesis by (fastforce simp: quiet_node_def r_role_ok_def)
qed


text \<open>The witness is a cluster of two nodes in which the first one ticks.\<close>

theorem cluster_never_progresses_witness:
  "cluster_run rand_ok [sample_raft, sample_raft\<lparr>r_id := 2\<rparr>] [sample_raft\<lparr>r_election_elapsed := 1\<rparr>, sample_raft\<lparr>r_id := 2\<rparr>]
    \<and> r_state (sample_raft\<lparr>r_election_elapsed := 1\<rparr>) \<noteq> StateLeader"
proof -
  let ?c = "[sample_raft, sample_raft\<lparr>r_id := 2\<rparr>]"
  let ?c' = "[sample_raft\<lparr>r_election_elapsed := 1\<rparr>, sample_raft\<lparr>r_id := 2\<rparr>]"
  have "r_event (sub_call 0 (env_const 0)) EvTick (?c ! 0) = Some (sample_raft\<lparr>r_election_elapsed := 1\<rparr>)"
    using sample_tick by (auto simp: r_run_def bind_eq_Some_conv)
  from cluster_step.tick [OF _ _ this, of rand_ok] have "cluster_step rand_ok ?c ?c'" by simp
  then have run: "cluster_run rand_ok ?c ?c'" by (rule r_into_rtranclp)
  have init: "\<forall>r\<in>set ?c. r_role_ok r \<and> r_id r \<noteq> 0 \<and> r_step_func r = Some StepFollower \<and> r_msgs r = []"
    by (simp add: r_role_ok_def sample_defs)
  from cluster_never_progresses [OF run init] run show ?thesis by simp
qed

section \<open>A quiet cluster cannot fail\<close>

lemma quiet_cluster_ready:
  assumes "cluster_run rand_ok c c'" and "\<forall>r\<in>set c. quiet_node r \<and> ready_to_run r"
  shows "\<forall>r\<in>set c'. quiet_node r \<and> ready_to_run r"
  using assms(1)
proof (induction rule: rtranclp_induct)
  case base
  show ?case using assms(2) .
next
  case (step d d')
  then have quiet: "\<forall>r\<in>set d. quiet_node r" by blast
  from cluster_step_event [OF step.hyps(2) quiet] obtain i g ev r where
    ev: "i < length d" "rand_ok g" "r_event g ev (d ! i) = Some r" "d' = d[i := r]" by blast
  have "ready_to_run (d ! i)" using step.IH ev(1) by simp
  from postD [OF r_event_ready [OF ev(2) this] ev(3)] have "ready_to_run r" .
  with step.IH have "\<forall>r\<in>set d'. ready_to_run r"
    using set_update_subset_insert [of d i r] by (auto simp: ev(4))
  with cluster_step_quiet [OF step.hyps(2) quiet] show ?case by blast
qed

lemma quiet_event_defined:
  assumes "quiet_node r" and "ready_to_run r" and "cluster_event ev"
  shows "r_event g ev r \<noteq> None"
proof
  assume "r_event g ev r = None"
  from r_event_undefined [OF this assms(2)] show False
    using assms(1,3) by (auto simp: quiet_node_def r_role_ok_def grant_overflows_def cluster_event_def)
qed

text \<open>A closed cluster of followers cannot fail: in every state that it reaches, every tick of every
  node, every proposal of a client and the delivery of every message that is under way is
  defined. The two counters that can overflow belong to leaders and to candidates that are
  answered, and a closed cluster has neither.\<close>

theorem cluster_always_defined:
  assumes "cluster_run rand_ok c c'"
    and "\<forall>r\<in>set c. ready_to_run r \<and> r_step_func r = Some StepFollower \<and> r_msgs r = []"
    and "i < length c'"
  shows "r_event g EvTick (c' ! i) \<noteq> None
    \<and> (\<forall>m. m_type m = MsgProp \<longrightarrow> r_event g (EvMsg m) (c' ! i) \<noteq> None)
    \<and> (\<forall>r\<in>set c'. \<forall>m\<in>set (r_msgs r). r_event g (EvMsg m) (c' ! i) \<noteq> None)"
proof -
  have "\<forall>r\<in>set c. quiet_node r \<and> ready_to_run r"
    using assms(2) by (auto simp: quiet_node_def ready_to_run_def timed_def raft_typed_def able_def)
  from quiet_cluster_ready [OF assms(1) this] have all: "\<forall>r\<in>set c'. quiet_node r \<and> ready_to_run r" .
  then have node: "quiet_node (c' ! i)" "ready_to_run (c' ! i)" using assms(3) by simp_all
  have "cluster_event (EvMsg m)" if "r \<in> set c'" "m \<in> set (r_msgs r)" for r m
    using all that by (auto simp: cluster_event_def quiet_node_def)
  moreover have "cluster_event EvTick" "m_type m = MsgProp \<Longrightarrow> cluster_event (EvMsg m)" for m
    by (simp_all add: cluster_event_def)
  ultimately show ?thesis using quiet_event_defined [OF node] by blast
qed

lemma sample_ready: "ready_to_run sample_raft" "ready_to_run (sample_raft\<lparr>r_id := 2\<rparr>)"
proof -
  have log: "r_raftlog sample_raft = sample_log" by (simp add: sample_defs)
  then have reads: "log_reads (r_raftlog sample_raft)"
    using log_reads_storage [OF sample_storage_wf sample_log_storage sample_log_ok] by simp
  have typed: "raft_typed sample_raft"
    using sample_role_ok(1) by (simp add: raft_typed_def) (simp add: sample_defs om_ok_def om_keys_def)
  moreover have "clock_ok sample_raft" "r_promotable sample_raft" "r_promotable (sample_raft\<lparr>r_id := 2\<rparr>)"
    "r_id sample_raft \<noteq> 0" "r_prs sample_raft \<noteq> []" "r_msgs sample_raft = []"
    by (simp_all add: clock_ok_def r_promotable_def om_find_def sample_defs int_max_def)
  moreover have "peers_ok (sample_raft\<lparr>r_id := 2\<rparr>)" "clock_ok (sample_raft\<lparr>r_id := 2\<rparr>)"
    using sample_raft_ok(1) calculation(2) by (simp_all add: peers_ok_def clock_ok_def)
  moreover have "raft_typed (sample_raft\<lparr>r_id := 2\<rparr>)"
    using typed by (simp add: raft_typed_def r_role_ok_def sample_defs)
  ultimately show "ready_to_run sample_raft" "ready_to_run (sample_raft\<lparr>r_id := 2\<rparr>)"
    using reads sample_raft_ok(1) by (simp_all add: ready_to_run_def timed_def able_def)
qed

theorem cluster_always_defined_witness:
  "r_event (env_const 7) EvTick (sample_raft\<lparr>r_id := 2\<rparr>) \<noteq> None"
proof -
  have "\<forall>r\<in>set [sample_raft, sample_raft\<lparr>r_id := 2\<rparr>]. ready_to_run r \<and> r_step_func r = Some StepFollower \<and> r_msgs r = []"
    using sample_ready by (simp add: sample_defs)
  from cluster_always_defined [OF rtranclp.rtrancl_refl this, of 1 "env_const 7"] show ?thesis by simp
qed

end
