(* ===== verification/Raft_Leaders.thy ===== *)
theory Raft_Leaders
  imports Raft_Cluster
begin

text \<open>
  Closed clusters in which any node may lead from the start. A leader's own progress may move (the
  port reads it from an append that returns nothing), but the other peers' progress and the
  contents of the logs do not, so that nothing is committed that the other peers had not
  acknowledged at the start.
\<close>

section \<open>Commits that the other peers back\<close>

text \<open>\<open>backed r c\<close>: with the leader itself, the peers that have acknowledged \<open>c\<close> are a majority.\<close>

definition backed :: "raft \<Rightarrow> u64 \<Rightarrow> bool" where
  "backed r c \<longleftrightarrow> majority_of (length (r_prs r))
     \<le> Suc (card {k. k \<noteq> r_id r \<and> (\<exists>p. om_find (r_prs r) k = Some p \<and> c \<le> pr_match p)})"

lemma majority_backs:
  assumes "om_ok (r_prs r)" and "majority_of (length (r_prs r)) \<le> count_if (\<lambda>i. c \<le> i) (peer_matches r)"
  shows "backed r c"
proof -
  let ?K = "{k. \<exists>p. om_find (r_prs r) k = Some p \<and> c \<le> pr_match p}"
  let ?O = "{k. k \<noteq> r_id r \<and> (\<exists>p. om_find (r_prs r) k = Some p \<and> c \<le> pr_match p)}"
  have K: "{k \<in> set (om_keys (r_prs r)). c \<le> pr_match (the (om_find (r_prs r) k))} = ?K"
    by (auto simp: set_om_keys)
  have "count_if (\<lambda>i. c \<le> i) (peer_matches r) = card ?K"
    unfolding peer_matches_find [OF assms(1)] K [symmetric] by (rule count_if_card) (rule om.keys_distinct [OF assms(1)])
  also have "finite ?O"
    by (rule finite_subset [of _ "set (om_keys (r_prs r))"]) (auto simp: set_om_keys)
  then have "card ?K \<le> card (insert (r_id r) ?O)" by (intro card_mono) auto
  also have "\<dots> \<le> Suc (card ?O)" by (rule card_insert_le_m1) simp_all
  finally show ?thesis using assms(2) by (simp add: backed_def)
qed

definition commit_ok :: "raft \<Rightarrow> raft \<Rightarrow> bool" where
  "commit_ok r t \<longleftrightarrow> rl_committed (r_raftlog t) = rl_committed (r_raftlog r)
     \<or> (r_step_func r = Some StepLeader \<and> rl_committed (r_raftlog r) < rl_committed (r_raftlog t)
        \<and> backed r (rl_committed (r_raftlog t)))"

lemma commit_ok_same: "r_raftlog t = r_raftlog r \<Longrightarrow> commit_ok r t"
  by (simp add: commit_ok_def)

lemma maybe_commit_backed:
  assumes "peers_ok r" and "r_step_func r = Some StepLeader" and "r_maybe_commit g r = Some (b, t)"
  shows "commit_ok r t \<and> (\<exists>c. t = r\<lparr>r_raftlog := (r_raftlog r)\<lparr>rl_committed := c\<rparr>\<rparr>)"
proof -
  let ?c = "sort_desc (peer_matches r) ! (majority_of (length (peer_matches r)) - 1)"
  from r_maybe_commit_picks [OF assms(1,3)] obtain l where ne: "r_prs r \<noteq> []"
    and run: "rl_maybe_commit g ?c (r_term r) (r_raftlog r) = Some (b, l)" and t: "t = r\<lparr>r_raftlog := l\<rparr>" by blast
  have "majority_of (length (r_prs r)) \<le> count_if (\<lambda>i. ?c \<le> i) (peer_matches r)"
    using mq.quorum_pick(1) [of "peer_matches r"] ne by (simp add: peer_matches_def)
  with assms(1) have "backed r ?c" by (intro majority_backs) (simp_all add: peers_ok_def)
  show ?thesis
  proof (cases b)
    case True
    with rl_maybe_commit_cases [OF run] have "rl_committed (r_raftlog r) < ?c" "l = (r_raftlog r)\<lparr>rl_committed := ?c\<rparr>"
      by simp_all
    with t \<open>backed r ?c\<close> assms(2) show ?thesis by (auto simp: commit_ok_def)
  next
    case False
    with rl_maybe_commit_cases [OF run] have "l = r_raftlog r" by simp
    with t have "t = r" by simp
    then show ?thesis
      by (intro conjI exI [of _ "rl_committed (r_raftlog r)"]) (simp_all add: commit_ok_same)
  qed
qed

section \<open>What no event of such a cluster changes\<close>

text \<open>The id, the log but for its commit index, the number of peers, and what the other peers have
  acknowledged.\<close>

definition r_acks :: "raft \<Rightarrow> u64 \<times> raft_log \<times> nat \<times> (u64 \<Rightarrow> progress option)" where
  "r_acks r = (r_id r, (r_raftlog r)\<lparr>rl_committed := 0\<rparr>, length (r_prs r), (om_find (r_prs r))(r_id r := None))"

lemma r_acks_same: "r_id t = r_id s \<Longrightarrow> r_raftlog t = r_raftlog s \<Longrightarrow> r_prs t = r_prs s \<Longrightarrow> r_acks t = r_acks s"
  by (simp add: r_acks_def)

lemma r_acks_find: "r_acks t = r_acks s \<Longrightarrow> k \<noteq> r_id s \<Longrightarrow> om_find (r_prs t) k = om_find (r_prs s) k"
  unfolding r_acks_def by (metis fun_upd_apply prod.inject)

lemma backed_same: "r_acks t = r_acks s \<Longrightarrow> backed t c = backed s c"
proof -
  assume eq: "r_acks t = r_acks s"
  then have "r_id t = r_id s" "length (r_prs t) = length (r_prs s)" by (simp_all only: r_acks_def prod.inject)
  moreover from this r_acks_find [OF eq]
  have "(k \<noteq> r_id t \<and> (\<exists>p. om_find (r_prs t) k = Some p \<and> c \<le> pr_match p))
      = (k \<noteq> r_id s \<and> (\<exists>p. om_find (r_prs s) k = Some p \<and> c \<le> pr_match p))" for k
    by (cases "k = r_id s") simp_all
  ultimately show ?thesis by (simp only: backed_def)
qed

lemma commit_ok_trans:
  assumes "commit_ok r s" and "commit_ok s t" and "r_acks s = r_acks r"
    and "r_step_func s = Some StepLeader \<longrightarrow> r_step_func r = Some StepLeader"
  shows "commit_ok r t"
proof -
  have "backed s d = backed r d" for d by (rule backed_same [OF assms(3)])
  with assms(1,2,4) show ?thesis unfolding commit_ok_def by (elim disjE) auto
qed

lemma r_acks_simps [simp]:
  "r_acks (r_send m s) = r_acks s"
  "r_acks (snd (r_get_progress k s)) = r_acks s"
  "r_acks (r_become_follower g t l s) = r_acks s"
  "r_acks (r_become_candidate g s) = r_acks s"
  "r_acks (s\<lparr>r_vote := v\<rparr>) = r_acks s"
  "r_acks (s\<lparr>r_election_elapsed := i\<rparr>) = r_acks s"
  "r_acks (s\<lparr>r_heartbeat_elapsed := i\<rparr>) = r_acks s"
  "r_acks (s\<lparr>r_raftlog := (r_raftlog s)\<lparr>rl_committed := c\<rparr>\<rparr>) = r_acks s"
  by (auto simp: r_acks_def r_send_def r_get_progress_def r_become_follower_def r_become_candidate_def
      r_reset_def r_reset_randomized_election_timeout_def)

lemma r_acks_update_own:
  assumes "om_ok (r_prs s)" and "om_find (r_prs s) (r_id s) \<noteq> None"
    and "r_progress_maybe_update (InPrs (r_id s)) n s = Some x"
  shows "r_acks (snd x) = r_acks s \<and> om_ok (r_prs (snd x)) \<and> r_raftlog (snd x) = r_raftlog s
    \<and> r_step_func (snd x) = r_step_func s"
proof -
  from assms(2,3) obtain p q where p: "om_find (r_prs s) (r_id s) = Some p"
    and x: "snd x = s\<lparr>r_prs := om_put (r_id s) q (r_prs s)\<rparr>"
    by (auto simp: r_progress_maybe_update_def r_progress_def r_set_progress_def prod.case_eq_if)
  from om_keys_put_old [OF assms(1) p, of q] have "length (om_put (r_id s) q (r_prs s)) = length (r_prs s)"
    by (metis length_om_keys)
  with x assms(1) show ?thesis by (auto simp: r_acks_def om_find_put om_ok_put)
qed

section \<open>One event\<close>

definition settled :: "raft \<Rightarrow> bool" where
  "settled r \<longleftrightarrow> r_role_ok r \<and> r_id r \<noteq> 0 \<and> peers_ok r \<and> (\<forall>m\<in>set (r_msgs r). m_type m = MsgVote)"

lemma role_leader: "r_role_ok r \<Longrightarrow> r_step_func r = Some StepLeader \<longleftrightarrow> r_state r = StateLeader"
  by (auto simp: r_role_ok_def)

definition settled_event :: "raft_event \<Rightarrow> bool" where
  "settled_event ev = (case ev of EvTick \<Rightarrow> True | EvMsg m \<Rightarrow> m_type m = MsgProp \<or> m_type m = MsgVote)"

text \<open>The leader: a proposal moves at most its own progress, and the commit index as far as the others
  back it.\<close>

definition ack_move :: "raft \<Rightarrow> raft \<Rightarrow> bool" where
  "ack_move r t \<longleftrightarrow> r_acks t = r_acks r \<and> commit_ok r t"

lemma append_entry_acks:
  assumes "peers_ok s" and "r_step_func s = Some StepLeader" and "om_find (r_prs s) (r_id s) \<noteq> None"
    and "r_append_entry g es s = Some (es', t)"
  shows "ack_move s t"
proof -
  have get: "r_get_progress (r_id s) (s\<lparr>r_raftlog := r_raftlog s\<rparr>) = (InPrs (r_id s), s)"
    using assms(3) by (simp add: r_get_progress_def)
  from assms(4) obtain n x h b where upd: "r_progress_maybe_update (InPrs (r_id s)) n s = Some x"
    and mc: "r_maybe_commit h (snd x) = Some (b, t)"
    using get by (auto simp: r_append_entry_def rl_append_pb_def bind_eq_Some_conv prod.case_eq_if)
  have x: "r_acks (snd x) = r_acks s" "om_ok (r_prs (snd x))" "r_raftlog (snd x) = r_raftlog s"
    "r_step_func (snd x) = r_step_func s"
    using r_acks_update_own [OF _ assms(3) upd] assms(1) by (simp_all add: peers_ok_def)
  then have "peers_ok (snd x)" using assms(1) by (simp add: peers_ok_def r_acks_def)
  from maybe_commit_backed [OF this _ mc] x assms(2) obtain c where t: "commit_ok (snd x) t"
    "t = (snd x)\<lparr>r_raftlog := (r_raftlog (snd x))\<lparr>rl_committed := c\<rparr>\<rparr>" by auto
  have "commit_ok s t"
    using commit_ok_trans [OF commit_ok_same [OF x(3)] t(1) x(1)] x(4) by simp
  moreover have "r_acks t = r_acks s" using t(2) x(1) by simp
  ultimately show ?thesis by (simp add: ack_move_def)
qed

lemma ack_move_get_progress: "ack_move s t \<Longrightarrow> ack_move s (snd (r_get_progress k t))"
  by (simp add: ack_move_def commit_ok_def) (simp add: r_get_progress_def)

lemma step_leader_acks:
  assumes "r_step_func s = Some StepLeader" and "r_id s \<noteq> 0" and "peers_ok s"
    and "m_type msg = MsgProp" and "r_step g msg s = Some (v, m, t)"
  shows "ack_move s t"
proof -
  from assms(1,4,5) have run: "r_step_leader g msg s = Some (v, m, t)"
    by (simp add: r_step_def r_call_step_func_def)
  show ?thesis
  proof (cases "om_find (r_prs s) (r_id s) = None \<or> r_lead_transferee s \<noteq> 0")
    case True
    with run assms(4) have "t = s"
      by (auto simp: r_step_leader_def r_step_leader_local_def bind_eq_Some_conv split: if_splits)
    then show ?thesis by (simp add: ack_move_def commit_ok_same)
  next
    case False
    have app: "post (r_append_entry h es s) (\<lambda>x. ack_move s (snd x))" for h es
      using append_entry_acks [OF assms(3,1)] False by (intro postI) (metis prod.collapse)
    have bcast: "post (r_bcast_append h u) (ack_move s)" if "ack_move s u" for h u
    proof -
      from that have "r_id u = r_id s" by (simp add: ack_move_def r_acks_def)
      with assms(2) that show ?thesis by simp
    qed
    have "post (r_step_leader g msg s) (\<lambda>x. ack_move s (snd (snd x)))"
      using False assms(4)
      by (auto simp: r_step_leader_def r_step_leader_local_def r_step_leader_peer_def prod.case_eq_if
          ack_move_get_progress intro!: post_mono [OF app] post_mono [OF bcast])
    from postD [OF this run] show ?thesis by simp
  qed
qed

text \<open>A leader's tick, for any part of the state that its steps leave alone.\<close>

lemma leader_tick_frame:
  assumes "r_role_ok s" and "r_step_func s = Some StepLeader" and "r_tick g s = Some t"
    and get: "\<And>k u. p (snd (r_get_progress k u)) = p u" and follow: "\<And>h t l u. p (r_become_follower h t l u) = p u"
    and timers: "\<And>i u. p (u\<lparr>r_election_elapsed := i\<rparr>) = p u" "\<And>i u. p (u\<lparr>r_heartbeat_elapsed := i\<rparr>) = p u"
  shows "p t = p s"
proof -
  have check: "p u' = p u" if "r_step h (new_message\<lparr>m_type := MsgCheckQuorum, m_from := k\<rparr>) u = Some (v, m, u')"
    "r_step_func u = Some StepLeader" for h k u v m u'
    using r_step_leader_check_quorum [of u "new_message\<lparr>m_type := MsgCheckQuorum, m_from := k\<rparr>" h] that
    by (auto simp: get follow)
  have beat: "p u' = p u" if "r_step h (new_message\<lparr>m_type := MsgBeat, m_from := k\<rparr>) u = Some (v, m, u')"
    "r_step_func u = Some StepLeader" for h k u v m u'
    using r_step_leader_beat [of u "new_message\<lparr>m_type := MsgBeat, m_from := k\<rparr>" h] that by (auto simp: get)
  from assms(1,2) have "r_tick_func s = Some TickHeartbeat" by (auto simp: r_role_ok_def)
  with assms(3) obtain n k u where u: "leader_check g (s\<lparr>r_election_elapsed := n, r_heartbeat_elapsed := k\<rparr>) = Some u"
    and t: "leader_beat g u = Some t"
    by (auto simp: r_tick_def r_tick_heartbeat_halves bind_eq_Some_conv)
  let ?s = "s\<lparr>r_election_elapsed := n, r_heartbeat_elapsed := k\<rparr>"
  have "r_role_ok ?s" using moves_to_ok [OF moves_to_same [OF assms(1), of ?s]] by simp
  from postD [OF leader_check_keeps [OF this] u] assms(2) have ok: "r_role_ok u" by simp
  have "p u = p s"
    using u assms(2) check [of _ _ "s\<lparr>r_heartbeat_elapsed := k, r_election_elapsed := 0\<rparr>"]
    by (auto simp: leader_check_def bind_eq_Some_conv timers split: if_splits)
  moreover have "p t = p u"
    using t ok beat [of _ _ "u\<lparr>r_heartbeat_elapsed := _\<rparr>"]
    by (auto simp: leader_beat_def bind_eq_Some_conv timers r_role_ok_def split: if_splits)
  ultimately show ?thesis by simp
qed

lemma leader_tick_acks:
  assumes "r_role_ok s" and "r_step_func s = Some StepLeader" and "r_tick g s = Some t"
  shows "r_acks t = r_acks s" and "r_outbox t = r_outbox s" and "r_raftlog t = r_raftlog s"
proof -
  show "r_acks t = r_acks s" by (rule leader_tick_frame [OF assms]) simp_all
  show "r_outbox t = r_outbox s" by (rule leader_tick_frame [OF assms]) simp_all
  show "r_raftlog t = r_raftlog s"
    by (rule leader_tick_frame [OF assms])
      (simp_all add: r_get_progress_def r_become_follower_def r_reset_def r_reset_randomized_election_timeout_def)
qed

text \<open>The other nodes.\<close>

lemma r_step_hup_prs: "r_prs (r_step_hup g r) = r_prs r"
  by (simp add: r_step_hup_def r_campaign_def r_campaign_fold r_become_candidate_def r_reset_def
      r_reset_randomized_election_timeout_def)

lemma r_step_hup_id: "r_id (r_step_hup g r) = r_id r"
  by (simp add: r_step_hup_def r_campaign_def r_campaign_fold r_become_candidate_def r_reset_def
      r_reset_randomized_election_timeout_def)

lemma r_step_hup_votes_only: "\<exists>ms. r_msgs (r_step_hup g s) = r_msgs s @ ms \<and> (\<forall>m\<in>set ms. m_type m = MsgVote)"
  by (auto simp: r_step_hup_def r_campaign_def r_campaign_fold r_become_candidate_def r_reset_def
      r_reset_randomized_election_timeout_def)

lemma hup_acks: "r_acks (r_step_hup g s) = r_acks s" "sends_only {MsgVote} s (r_step_hup g s)"
proof -
  show "r_acks (r_step_hup g s) = r_acks s"
    by (rule r_acks_same) (rule r_step_hup_id, rule r_step_hup_log, rule r_step_hup_prs)
  show "sends_only {MsgVote} s (r_step_hup g s)"
    using r_step_hup_votes_only [of g s] by (simp add: r_step_hup_id sends_only_def)
qed

lemma vote_acks:
  assumes "r_step_vote g msg s = Some t"
  shows "r_acks t = r_acks s" and "r_step_func t = r_step_func s"
  using assms by (auto simp: r_step_vote_def bind_eq_Some_conv split: if_splits)

definition settled_move :: "raft \<Rightarrow> raft \<Rightarrow> bool" where
  "settled_move r t \<longleftrightarrow> ack_move r t \<and> sends_only {MsgVote} r t
     \<and> (r_step_func t = Some StepLeader \<longrightarrow> r_step_func r = Some StepLeader)"

lemma settled_move_outbox:
  "ack_move r t \<Longrightarrow> r_outbox t = r_outbox r \<Longrightarrow> (r_step_func t = Some StepLeader \<longrightarrow> r_step_func r = Some StepLeader)
    \<Longrightarrow> settled_move r t"
  by (simp add: settled_move_def sends_only_quiet)

lemma settled_tick_moves:
  assumes "r_tick g r = Some t" and "r_role_ok r"
  shows "settled_move r t"
proof (cases "r_step_func r = Some StepLeader")
  case True
  from leader_tick_acks [OF assms(2) True assms(1)] True show ?thesis
    by (simp add: settled_move_outbox ack_move_def commit_ok_same)
next
  case False
  with assms(2) have "r_tick_func r = Some TickElection" by (auto simp: r_role_ok_def)
  with assms(1) have "r_tick_election g r = Some t" by (simp add: r_tick_def)
  then consider n where "t = r\<lparr>r_election_elapsed := n\<rparr>" | h where "t = r_step_hup h (r\<lparr>r_election_elapsed := 0\<rparr>)"
    by (auto simp: r_tick_election_def r_step_def bind_eq_Some_conv split: if_splits)
  then show ?thesis
  proof cases
    case 1
    with False show ?thesis by (simp add: settled_move_outbox ack_move_def commit_ok_same)
  next
    case 2
    have "sends_only {MsgVote} r (r_step_hup h (r\<lparr>r_election_elapsed := 0\<rparr>))"
      using hup_acks(2) [of "r\<lparr>r_election_elapsed := 0\<rparr>" h] by (simp add: sends_only_def)
    with 2 False show ?thesis
      using r_step_hup_step_func [of h "r\<lparr>r_election_elapsed := 0\<rparr>"] by (auto simp: settled_move_def hup_acks(1) ack_move_def r_step_hup_log commit_ok_same)
  qed
qed

lemma settled_step_moves:
  assumes "r_step g msg r = Some (v, m, t)" and "settled r" and "m_type msg = MsgProp \<or> m_type msg = MsgVote"
  shows "settled_move r t"
proof (cases "m_type msg = MsgVote")
  case True
  with assms(1) have "r_step_vote g msg r = Some t" by (auto simp: r_step_def bind_eq_Some_conv)
  with vote_acks [OF this] r_step_vote_outbox [OF this] r_step_vote_log [OF this] show ?thesis
    by (simp add: settled_move_outbox ack_move_def commit_ok_same)
next
  case False
  with assms(3) have proposal: "m_type msg = MsgProp" by simp
  show ?thesis
  proof (cases "r_step_func r = Some StepLeader")
    case True
    with assms(2) have "ack_move r t"
      using step_leader_acks [OF True _ _ proposal assms(1)] by (simp add: settled_def)
    moreover have "r_outbox t = r_outbox r"
      using postD [OF r_step_leader_outbox, of r g msg] assms(1,2) True proposal
      by (simp add: r_step_def r_call_step_func_def settled_def)
    ultimately show ?thesis using True by (simp add: settled_move_outbox)
  next
    case False
    from assms(1) proposal obtain f where f: "r_step_func r = Some f"
      by (auto simp: r_step_def r_call_step_func_def bind_eq_Some_conv)
    with assms(1) proposal False have "t = r"
      by (cases f) (auto simp: r_step_def r_call_step_func_def r_step_follower_def r_step_candidate_def)
    then show ?thesis by (simp add: settled_move_outbox ack_move_def commit_ok_same)
  qed
qed

lemma settled_event_moves:
  assumes "r_event g ev r = Some t" and "settled r" and "settled_event ev"
  shows "settled_move r t"
  using assms settled_tick_moves settled_step_moves
  by (fastforce simp: r_event_def settled_event_def settled_def bind_eq_Some_conv split: raft_event.splits)

lemma settled_event_keeps:
  assumes "r_event g ev r = Some t" and "settled r" and "settled_event ev"
  shows "settled t"
proof -
  have move: "settled_move r t" using settled_event_moves [OF assms] .
  have "r_role_ok t"
    using postD [OF r_event_moves assms(1)] assms(2) by (auto simp: settled_def dest: moves_to_ok)
  moreover have "raft_le r t" using postD [OF r_event_le assms(1)] .
  then have "peers_ok t" using assms(2) move
    by (auto simp: raft_le_def om_le_def settled_def peers_ok_def settled_move_def ack_move_def r_acks_def)
  moreover have "\<forall>m\<in>set (r_msgs t). m_type m = MsgVote"
    using move assms(2) by (auto simp: settled_move_def sends_only_def settled_def)
  moreover have "r_id t = r_id r" using move by (simp add: settled_move_def ack_move_def r_acks_def)
  ultimately show ?thesis using assms(2) by (auto simp: settled_def)
qed

section \<open>Cluster runs\<close>

lemma settled_cluster_step:
  assumes "cluster_step good c c'" and "\<forall>r\<in>set c. settled r"
  shows "\<exists>i g ev t. i < length c \<and> good g \<and> settled_event ev \<and> r_event g ev (c ! i) = Some t \<and> c' = c[i := t]"
  using assms(1)
proof (cases rule: cluster_step.cases)
  case (tick i g r)
  then show ?thesis by (intro exI [of _ i] exI [of _ g] exI [of _ EvTick]) (simp add: settled_event_def)
next
  case (propose i m g r)
  then show ?thesis by (intro exI [of _ i] exI [of _ g] exI [of _ "EvMsg m"]) (simp add: settled_event_def)
next
  case (deliver i j m g r)
  then have "m_type m = MsgVote" using assms(2) by (auto simp: settled_def)
  with deliver show ?thesis
    by (intro exI [of _ i] exI [of _ g] exI [of _ "EvMsg m"]) (simp add: settled_event_def)
qed

text \<open>What a run relates, node by node: moves of the logs and acknowledgements, and no new leader.\<close>

definition node_move :: "raft \<Rightarrow> raft \<Rightarrow> bool" where
  "node_move r t \<longleftrightarrow> ack_move r t \<and> (r_step_func t = Some StepLeader \<longrightarrow> r_step_func r = Some StepLeader)"

lemma node_move_refl: "node_move r r"
  by (simp add: node_move_def ack_move_def commit_ok_same)

lemma node_move_trans: "node_move r s \<Longrightarrow> node_move s t \<Longrightarrow> node_move r t"
  unfolding node_move_def ack_move_def by (metis commit_ok_trans)

lemma settled_cluster_run:
  assumes "cluster_run good c d" and "\<forall>r\<in>set c. settled r"
  shows "(\<forall>r\<in>set d. settled r) \<and> list_all2 node_move c d"
  using assms(1)
proof (induction rule: rtranclp_induct)
  case base
  then show ?case using assms(2) by (simp add: list_all2_refl node_move_refl)
next
  case (step d d')
  then obtain i g ev t where ev: "i < length d" "settled_event ev" "r_event g ev (d ! i) = Some t" "d' = d[i := t]"
    using settled_cluster_step [OF step.hyps(2)] by blast
  have at: "settled (d ! i)" using step.IH ev(1) by simp
  have "\<forall>r\<in>set d'. settled r"
    using settled_event_keeps [OF ev(3) at ev(2)] step.IH set_update_subset_insert [of d i t] by (auto simp: ev(4))
  moreover have "node_move (d ! i) t"
    using settled_event_moves [OF ev(3) at ev(2)] by (simp add: settled_move_def node_move_def)
  then have "list_all2 node_move d d'"
    using ev(1) by (simp add: ev(4) list_all2_conv_all_nth nth_list_update node_move_refl)
  then have "list_all2 node_move c d'"
    using step.IH list_all2_trans [of node_move node_move node_move c d d'] node_move_trans by blast
  ultimately show ?case ..
qed

lemma settled_cluster_ready:
  assumes "cluster_run rand_ok c d" and "\<forall>r\<in>set c. settled r" and "\<forall>r\<in>set c. ready_to_run r"
  shows "\<forall>r\<in>set d. ready_to_run r"
  using assms(1)
proof (induction rule: rtranclp_induct)
  case base
  then show ?case using assms(3) .
next
  case (step d d')
  have "\<forall>r\<in>set d. settled r" using settled_cluster_run [OF step.hyps(1) assms(2)] by simp
  then obtain i g ev t where ev: "i < length d" "rand_ok g" "r_event g ev (d ! i) = Some t" "d' = d[i := t]"
    using settled_cluster_step [OF step.hyps(2)] by blast
  have "ready_to_run (d ! i)" using step.IH ev(1) by simp
  from postD [OF r_event_ready [OF ev(2) this] ev(3)] step.IH show ?case
    using set_update_subset_insert [of d i t] by (auto simp: ev(4))
qed

section \<open>Properties\<close>






text \<open>C7: In a closed cluster, whoever leads, only one of the faults that the model checks can happen
  (an access outside a container, a null pointer, an empty function, a signed overflow): the
  heartbeat timer of a node that was leader from the start overflows in its tick. In every state
  that the cluster reaches, every other tick, every proposal and every delivery of a message that
  is under way runs through. This does not count a missing return statement or a variable that is
  read unset, which in C++ are undefined on their own (a proposal to a leader meets both); the
  model runs on from them with every value.\<close>

theorem cluster_faults_by_heartbeat_only:
  assumes "cluster_run rand_ok c c'"
    and "\<forall>r\<in>set c. ready_to_run r \<and> r_msgs r = []"
    and "i < length c'" and "r_event g ev (c' ! i) = None"
    and "ev = EvTick \<or> (\<exists>m. ev = EvMsg m \<and> (m_type m = MsgProp \<or> (\<exists>r\<in>set c'. m \<in> set (r_msgs r))))"
  shows "ev = EvTick \<and> r_state (c ! i) = StateLeader \<and> r_state (c' ! i) = StateLeader
    \<and> int_max - 1 \<le> r_heartbeat_elapsed (c' ! i)"
proof -
  have init: "\<forall>r\<in>set c. settled r"
    using assms(2) by (simp add: settled_def ready_to_run_def timed_def raft_typed_def able_def)
  from settled_cluster_run [OF assms(1) init]
  have settled: "\<forall>r\<in>set c'. settled r" and rel: "list_all2 node_move c c'" by simp_all
  have len: "length c' = length c" using list_all2_lengthD [OF rel] by simp
  have ready: "ready_to_run (c' ! i)" using settled_cluster_ready [OF assms(1) init] assms(2,3) by simp
  have "settled_event ev"
    using assms(5) settled by (auto simp: settled_event_def settled_def)
  with r_event_undefined [OF assms(4) ready]
  have fail: "ev = EvTick \<and> r_state (c' ! i) = StateLeader \<and> int_max - 1 \<le> r_heartbeat_elapsed (c' ! i)"
    by (auto simp: settled_event_def grant_overflows_def)
  have role: "r_role_ok (c' ! i)" "r_role_ok (c ! i)" using settled init assms(3) len by (simp_all add: settled_def)
  have "node_move (c ! i) (c' ! i)" using list_all2_nthD [OF rel] assms(3) len by simp
  then have "r_state (c ! i) = StateLeader"
    using fail role_leader [OF role(1)] role_leader [OF role(2)] by (simp add: node_move_def)
  with fail show ?thesis by simp
qed

text \<open>The witness is a leader whose heartbeat timer stands one below the largest \<open>int\<close>.\<close>

definition sample_late :: raft where
  "sample_late = sample_leader\<lparr>r_heartbeat_elapsed := int_max - 1\<rparr>"

lemma sample_late_ready: "ready_to_run sample_late"
proof -
  have "log_reads (r_raftlog sample_late)"
    using log_reads_storage [OF sample_storage_wf sample_log_storage sample_log_ok]
    by (simp add: sample_late_def) (simp add: sample_defs)
  moreover have "raft_typed sample_late"
    using sample_role_ok(2) by (simp add: sample_late_def raft_typed_def)
      (simp add: sample_defs om_ok_def om_keys_def u64_order r_role_ok_def)
  moreover have "clock_ok sample_late" "r_promotable sample_late" "r_prs sample_late \<noteq> []" "r_id sample_late \<noteq> 0"
    by (simp_all add: sample_late_def clock_ok_def r_promotable_def om_find_def sample_defs int_max_def)
  moreover have "peers_ok sample_late" using sample_raft_ok(2) by (simp add: sample_late_def peers_ok_def)
  ultimately show ?thesis by (simp add: ready_to_run_def timed_def able_def)
qed

lemma sample_late_fails: "r_event g EvTick sample_late = None"
  by (simp add: r_event_def r_tick_def r_tick_heartbeat_halves leader_check_def leader_beat_def int_inc_def int_add_def
      int_max_def sample_late_def sample_defs)

theorem cluster_faults_by_heartbeat_only_witness:
  "r_event (env_const 0) EvTick sample_late = None \<and> int_max - 1 \<le> r_heartbeat_elapsed sample_late"
proof -
  have "r_msgs sample_late = []" by (simp add: sample_late_def sample_defs)
  with sample_late_ready have init: "\<forall>r\<in>set [sample_late]. ready_to_run r \<and> r_msgs r = []" by simp
  from cluster_faults_by_heartbeat_only [OF rtranclp.rtrancl_refl init, of 0 "env_const 0" EvTick] sample_late_fails
  show ?thesis by simp
qed

end
