(* ===== verification/Raft_Transport.thy ===== *)
theory Raft_Transport
  imports Raft_Proto Ord_Map
begin

text \<open>
  \<^verbatim>\<open>src/src/rafthttp\<close>: the transport, the stream to a peer and the server that reads streams.
  What the libraries answer (brpc, bthread, butil, protobuf) is collected in the record
  \<open>library\<close>, an argument of every operation that asks them; theorems hold for every such
  record, or name what they need of it.
\<close>

section \<open>The libraries\<close>

record library =
  lb_queue_start :: "u64 option \<Rightarrow> int option"
  lb_queue_id :: "nat \<Rightarrow> u64"
  lb_queue_execute :: "u64 \<Rightarrow> int"
  lb_timer_add :: int
  lb_channel_init :: "string \<Rightarrow> int"
  lb_add_service :: int
  lb_server_start :: "int \<Rightarrow> int"
  lb_dir_name :: "string \<Rightarrow> string"
  lb_create_directory :: "string \<Rightarrow> bool \<times> bool"
  lb_serialize_conf_change :: "conf_change \<Rightarrow> bytes"
  lb_serialize_message :: "message \<Rightarrow> bytes"
  lb_serialize_kv :: "bytes \<times> bytes \<Rightarrow> bytes"

text \<open>
  \<open>lb_queue_start\<close> is \<open>execution_queue_start\<close> for the pointer that is to receive the queue id
  (\<^term>\<open>None\<close> for a null pointer), \<open>lb_queue_id k\<close> is the id that the \<open>k\<close>-th queue gets,
  \<open>lb_queue_execute\<close> is what \<open>execution_queue_execute\<close> returns for a queue id, and
  \<open>lb_create_directory\<close> tells whether a directory was created and, if not, whether it is
  there. The library writes the id through the pointer, which must not be null.
\<close>

definition library_ok :: "library \<Rightarrow> bool" where
  "library_ok lb \<longleftrightarrow> lb_queue_start lb None = None"

text \<open>A C++ conversion from \<open>int\<close> to \<open>bool\<close>.\<close>

definition bool_of_int :: "int \<Rightarrow> bool" where
  "bool_of_int n \<longleftrightarrow> n \<noteq> 0"

section \<open>Streams\<close>

text \<open>\<open>new StreamWriter()\<close> and \<open>new Peer()\<close> value-initialise: the queue pointers are null.\<close>

record stream_writer =
  sw_send_queue_id :: "u64 option"
  sw_url :: string

definition new_stream_writer :: stream_writer where
  "new_stream_writer = \<lparr>sw_send_queue_id = None, sw_url = []\<rparr>"

definition sw_start :: "library \<Rightarrow> string \<Rightarrow> bool rv option" where
  "sw_start lb url = (
     let stream = new_stream_writer\<lparr>sw_url := url\<rparr>
     in if lb_channel_init lb url \<noteq> 0 then Some (Returns (bool_of_int (- 1)))
        else do {
          _ \<leftarrow> lb_queue_start lb (sw_send_queue_id stream);
          Some NoReturn
        })"

datatype http_method = MethodDefault | MethodGet

record http_call =
  hc_uri :: string
  hc_method :: http_method
  hc_attachment :: bytes

text \<open>
  The loop over the messages of a batch sends each in a synchronous call and ends at the first
  call that fails. The result holds the calls that were made; \<open>failed i c\<close> is the outcome of
  the \<open>i\<close>-th call.
\<close>

definition sw_call :: "library \<Rightarrow> stream_writer \<Rightarrow> message \<Rightarrow> http_call" where
  "sw_call lb stream m = (
     let msg = lb_serialize_message lb m;
         cntl = \<lparr>hc_uri = sw_url stream, hc_method = MethodDefault, hc_attachment = []\<rparr>
     in if msg \<noteq> [] then cntl\<lparr>hc_method := MethodGet, hc_attachment := hc_attachment cntl @ msg\<rparr> else cntl)"

primrec sw_send_loop ::
    "library \<Rightarrow> (nat \<Rightarrow> http_call \<Rightarrow> bool) \<Rightarrow> stream_writer \<Rightarrow> nat \<Rightarrow> message list \<Rightarrow> int rv \<times> http_call list" where
  "sw_send_loop lb failed stream i [] = (NoReturn, [])"
| "sw_send_loop lb failed stream i (m # ms) = (
     let cntl = sw_call lb stream m
     in if failed i cntl then (Returns (- 1), [cntl])
        else let (v, calls) = sw_send_loop lb failed stream (i + 1) ms in (v, cntl # calls))"

definition sw_serve_send_msg ::
    "library \<Rightarrow> (nat \<Rightarrow> http_call \<Rightarrow> bool) \<Rightarrow> stream_writer \<Rightarrow> bool \<Rightarrow> message list \<Rightarrow> int rv \<times> http_call list" where
  "sw_serve_send_msg lb failed stream stopped batch =
     (if stopped then (Returns 0, []) else sw_send_loop lb failed stream 0 batch)"

text \<open>The reader's server runs until it is asked to quit.\<close>

definition sr_start :: "library \<Rightarrow> int \<Rightarrow> bool" where
  "sr_start lb port =
     (if lb_add_service lb \<noteq> 0 then bool_of_int (- 1)
      else if lb_server_start lb port \<noteq> 0 then bool_of_int (- 1)
      else True)"

section \<open>Peers and the transport\<close>

record http_peer =
  hp_recv_queue_id :: "u64 option"
  hp_prop_queue_id :: "u64 option"

definition new_http_peer :: http_peer where
  "new_http_peer = \<lparr>hp_recv_queue_id = None, hp_prop_queue_id = None\<rparr>"

text \<open>The handlers of the two queues of a peer have empty bodies.\<close>

definition hp_serve_propose :: "message list \<Rightarrow> http_peer \<Rightarrow> int rv \<times> http_peer" where
  "hp_serve_propose batch p = (NoReturn, p)"

definition hp_serve_recv :: "message list \<Rightarrow> http_peer \<Rightarrow> int rv \<times> http_peer" where
  "hp_serve_recv batch p = (NoReturn, p)"

text \<open>
  \<open>tp_raft\<close> and \<open>tp_snapshotter\<close> tell whether the pointers are set, \<open>tp_owned\<close> whether some
  \<open>shared_ptr\<close> owns the object. The static object of \<open>Instance\<close> is owned by none.
\<close>

record transport =
  tp_id :: u64
  tp_urls :: "string list"
  tp_cluster_id :: u64
  tp_raft :: bool
  tp_snapshotter :: bool
  tp_peers :: "(u64, http_peer) omap"
  tp_owned :: bool

definition static_transport :: transport where
  "static_transport = \<lparr>tp_id = 0, tp_urls = [], tp_cluster_id = 0, tp_raft = False, tp_snapshotter = False,
     tp_peers = [], tp_owned = False\<rparr>"

definition tp_init :: "u64 \<Rightarrow> string list \<Rightarrow> u64 \<Rightarrow> bool \<Rightarrow> bool \<Rightarrow> transport \<Rightarrow> bool rv \<times> transport" where
  "tp_init i urls cluster_id raft snapshotter t =
     (NoReturn, t\<lparr>tp_id := i, tp_urls := urls, tp_cluster_id := cluster_id, tp_raft := raft,
        tp_snapshotter := snapshotter\<rparr>)"

text \<open>\<open>StartPeer\<close> has no return statement, so that no peer pointer comes out of it.\<close>

definition tp_start_peer :: "library \<Rightarrow> string list \<Rightarrow> u64 \<Rightarrow> http_peer rv option" where
  "tp_start_peer lb urls peer_id = do {
     let peer = new_http_peer;
     _ \<leftarrow> lb_queue_start lb (hp_recv_queue_id peer);
     _ \<leftarrow> lb_queue_start lb (hp_prop_queue_id peer);
     url \<leftarrow> vec_at urls (peer_id - 1);
     _ \<leftarrow> sw_start lb url;
     let _ = sr_start lb 1000;
     Some NoReturn
   }"

definition tp_start :: "transport \<Rightarrow> bool rv \<times> transport" where
  "tp_start t = (NoReturn, t)"

text \<open>
  \<open>shared_from_this\<close> needs an owner; assigning the pointer that \<open>StartPeer\<close> did not return
  reads an object that was never constructed.
\<close>

definition tp_add_peer :: "library \<Rightarrow> u64 \<Rightarrow> string list \<Rightarrow> transport \<Rightarrow> transport option" where
  "tp_add_peer lb i urls t =
     (if \<not> tp_owned t then None
      else do {
        v \<leftarrow> tp_start_peer lb urls i;
        case v of
          NoReturn \<Rightarrow> None
        | Returns p \<Rightarrow> Some (t\<lparr>tp_peers := om_put i p (tp_peers t)\<rparr>)
      })"

definition tp_send :: "message \<Rightarrow> transport \<Rightarrow> bool rv \<times> transport" where
  "tp_send msg t = (NoReturn, t)"

section \<open>Properties\<close>

lemma length_takeWhile_all: "length (takeWhile P xs) = length xs \<longleftrightarrow> (\<forall>x\<in>set xs. P x)"
  by (induction xs) simp_all

text \<open>The messages in front of the first call that fails, counting the calls from \<open>i\<close>.\<close>

definition answered ::
    "library \<Rightarrow> (nat \<Rightarrow> http_call \<Rightarrow> bool) \<Rightarrow> stream_writer \<Rightarrow> nat \<Rightarrow> message list \<Rightarrow> (nat \<times> message) list" where
  "answered lb failed stream i ms =
     takeWhile (\<lambda>x. \<not> failed (fst x) (sw_call lb stream (snd x))) (enumerate i ms)"

lemma sw_send_loop_answered:
  "sw_send_loop lb failed stream i ms =
    (if length (answered lb failed stream i ms) < length ms then Returns (- 1) else NoReturn,
     map (sw_call lb stream) (take (Suc (length (answered lb failed stream i ms))) ms))"
  by (induction ms arbitrary: i) (simp_all add: answered_def)

text \<open>C40: The writer of a stream sends the messages of a batch in order, one call for each, up to and
  including the first call that fails; it then gives up with -1 and never sends the rest of the
  batch. Every message of the batch was answered exactly if no call failed.\<close>

theorem stream_stops_at_first_failure:
  "sw_serve_send_msg lb failed stream False batch =
      (if length (answered lb failed stream 0 batch) < length batch then Returns (- 1) else NoReturn,
       map (sw_call lb stream) (take (Suc (length (answered lb failed stream 0 batch))) batch))
    \<and> (fst (sw_serve_send_msg lb failed stream False batch) = NoReturn \<longleftrightarrow>
        (\<forall>i<length batch. \<not> failed i (sw_call lb stream (batch ! i))))"
proof -
  let ?done = "answered lb failed stream 0 batch"
  have "length ?done < length batch \<longleftrightarrow> (\<exists>i<length batch. failed i (sw_call lb stream (batch ! i)))"
  proof -
    have "length ?done = length batch \<longleftrightarrow> (\<forall>i<length batch. \<not> failed i (sw_call lb stream (batch ! i)))"
      using length_takeWhile_all [of _ "enumerate 0 batch"]
      by (simp add: answered_def all_set_conv_all_nth nth_enumerate_eq)
    moreover have "length ?done \<le> length batch"
      unfolding answered_def by (metis length_enumerate length_takeWhile_le)
    ultimately show ?thesis by auto
  qed
  then show ?thesis
    by (simp add: sw_serve_send_msg_def sw_send_loop_answered)
qed

text \<open>Answers of the libraries for the concrete runs: queues and servers start, directories exist.\<close>

definition sample_library :: library where
  "sample_library = \<lparr>lb_queue_start = map_option (\<lambda>_. 0), lb_queue_id = (\<lambda>k. of_nat k + 7),
     lb_queue_execute = (\<lambda>_. 0), lb_timer_add = 0, lb_channel_init = (\<lambda>_. 0), lb_add_service = 0,
     lb_server_start = (\<lambda>_. 0), lb_dir_name = (\<lambda>_. ''.''), lb_create_directory = (\<lambda>_. (False, True)),
     lb_serialize_conf_change = (\<lambda>_. []), lb_serialize_message = (\<lambda>m. [ucast (m_to m)]),
     lb_serialize_kv = (\<lambda>x. fst x @ snd x)\<rparr>"

theorem stream_stops_at_first_failure_witness:
  "sw_serve_send_msg sample_library (\<lambda>i c. i = 1) (new_stream_writer\<lparr>sw_url := ''b''\<rparr>) False
      [new_message\<lparr>m_to := 1\<rparr>, new_message\<lparr>m_to := 2\<rparr>, new_message\<lparr>m_to := 3\<rparr>]
    = (Returns (- 1), [\<lparr>hc_uri = ''b'', hc_method = MethodGet, hc_attachment = [1]\<rparr>,
                       \<lparr>hc_uri = ''b'', hc_method = MethodGet, hc_attachment = [2]\<rparr>])"
  using stream_stops_at_first_failure [of sample_library "\<lambda>i c. i = 1" "new_stream_writer\<lparr>sw_url := ''b''\<rparr>"
      "[new_message\<lparr>m_to := 1\<rparr>, new_message\<lparr>m_to := 2\<rparr>, new_message\<lparr>m_to := 3\<rparr>]"]
  by (simp add: answered_def sw_call_def sample_library_def new_stream_writer_def)

text \<open>A start that failed is reported as \<^term>\<open>True\<close> by both ends of a stream: the error code -1 is
  converted to \<open>bool\<close>. No start is ever reported as \<^term>\<open>False\<close>.\<close>

theorem stream_start_hides_failure:
  "sr_start lb port \<and> sw_start lb url \<noteq> Some (Returns False)
    \<and> (lb_channel_init lb url \<noteq> 0 \<longrightarrow> sw_start lb url = Some (Returns True))"
  by (simp add: sr_start_def sw_start_def bool_of_int_def bind_eq_None_conv bind_eq_Some_conv)

text \<open>The queue pointers of a new peer and of a new stream writer are null, so that starting a
  queue through them is undefined.\<close>

theorem transport_queues_unset:
  assumes "library_ok lb"
  shows "tp_start_peer lb urls i = None \<and> (lb_channel_init lb url = 0 \<longrightarrow> sw_start lb url = None)"
  using assms by (simp add: tp_start_peer_def sw_start_def library_ok_def new_http_peer_def new_stream_writer_def)

text \<open>No call of \<open>AddPeer\<close> comes back: a transport that no \<open>shared_ptr\<close> owns fails at once, and any
  other at the pointer that \<open>StartPeer\<close> does not return.\<close>

lemma tp_add_peer_None: "tp_add_peer lb i urls t = None"
  by (simp add: tp_add_peer_def tp_start_peer_def bind_eq_None_conv)

end
