(* ===== verification/Raft_Example.thy ===== *)
theory Raft_Example
  imports Raft_Node Raft_Transport
begin

text \<open>
  \<^verbatim>\<open>src/examples/raftexample/raft_node.h\<close> and \<^verbatim>\<open>raft_node.cpp\<close>: the program
  that runs a node. It owns a \<open>Node\<close>, two execution queues and a timer, starts the transport,
  and passes proposals on. A queue is the list of the items that it has accepted, oldest
  first; the libraries are the argument \<open>library\<close> of \<open>Raft_Transport\<close>.
\<close>

section \<open>State\<close>

datatype channal_type = ChannalTypeTick | ChannalTypeReady | ChannalTypeTransportError | ChannalTypeStop
  | ChannalTypePropose | ChannalTypeConfChange

record channal_msg =
  cm_type :: channal_type
  cm_propose :: bytes
  cm_ready :: bytes

text \<open>
  The \<open>RaftNode\<close> object, the objects behind the references that it uses (transport, log, raft
  object), and what the queues hold. \<open>sv_timer\<close> tells whether the one-shot timer is pending.
\<close>

record raft_server =
  sv_id :: int
  sv_peers :: "string list"
  sv_join :: bool
  sv_waldir :: string
  sv_snapdir :: string
  sv_snap_count :: u64
  sv_node :: node
  sv_queue_id :: u64
  sv_propose_queue_id :: u64
  sv_timer :: bool
  sv_transport :: transport
  sv_raft_log :: raft_log
  sv_raft :: raft
  sv_node_queues :: "u64 \<Rightarrow> node_recv_msg list"
  sv_channals :: "u64 \<Rightarrow> channal_msg list"

text \<open>
  The constructors: the one of \<open>Instance\<close> leaves a static object, which is zero; the one of
  \<open>NewRaftNode\<close> stores its arguments and names the two directories after the id
  (\<open>std::to_string\<close>). The log and the raft object are those of \<open>GetRaftLog\<close> and \<open>NewRaft\<close>.
\<close>

fun decimal :: "nat \<Rightarrow> string" where
  "decimal n = (if n < 10 then [char_of (48 + n)] else decimal (n div 10) @ [char_of (48 + n mod 10)])"

declare decimal.simps [simp del]

definition std_to_string :: "int \<Rightarrow> string" where
  "std_to_string i = (if i < 0 then CHR ''-'' # decimal (nat (- i)) else decimal (nat i))"

definition rn_instance :: "raft_log \<Rightarrow> raft \<Rightarrow> raft_server" where
  "rn_instance l r = \<lparr>sv_id = 0, sv_peers = [], sv_join = False, sv_waldir = [], sv_snapdir = [], sv_snap_count = 0,
     sv_node = \<lparr>nd_queue_id = 0\<rparr>, sv_queue_id = 0, sv_propose_queue_id = 0, sv_timer = False,
     sv_transport = static_transport, sv_raft_log = l, sv_raft = r, sv_node_queues = (\<lambda>_. []), sv_channals = (\<lambda>_. [])\<rparr>"

definition rn_construct :: "int \<Rightarrow> string list \<Rightarrow> bool \<Rightarrow> raft_server \<Rightarrow> raft_server" where
  "rn_construct i peers join s =
     s\<lparr>sv_id := i, sv_peers := peers, sv_join := join, sv_snap_count := 10000,
       sv_waldir := ''raftexample-'' @ std_to_string i,
       sv_snapdir := ''raftexample-'' @ std_to_string i @ ''-snap''\<rparr>"

text \<open>
  \<open>NewRaftNode\<close> constructs its object in the first call only and starts the thread of \<open>StartRaft\<close>
  in every call; \<open>rc\<close> is what creating the thread returns. The promises that it moves to its
  caller are not part of the model. The result is the object and whether the thread was started.
\<close>

definition rn_new_raft_node ::
    "int \<Rightarrow> int \<Rightarrow> string list \<Rightarrow> bool \<Rightarrow> raft_server \<Rightarrow> raft_server option \<Rightarrow> bool \<times> raft_server option" where
  "rn_new_raft_node rc i peers join fresh g_raft_node =
     (let s = (case g_raft_node of None \<Rightarrow> rn_construct i peers join fresh | Some s \<Rightarrow> s)
      in (rc = 0, Some s))"

definition rn_init :: "int \<Rightarrow> string list \<Rightarrow> bool \<Rightarrow> raft_server \<Rightarrow> bool \<times> raft_server" where
  "rn_init i peers join s = (True, s\<lparr>sv_id := i, sv_peers := peers, sv_join := join\<rparr>)"

text \<open>\<open>Start\<close> runs \<open>StartRaft\<close> in a thread of its own; \<open>rc\<close> is what creating the thread returns.\<close>

definition rn_start :: "int \<Rightarrow> bool" where
  "rn_start rc = (if rc \<noteq> 0 then False else True)"

section \<open>Starting raft\<close>

text \<open>
  \<open>for (int i = 0; i < peers.size(); i++) peers.push_back(Peer(i++))\<close>: the vector that the
  loop fills is the one that bounds it, and the index is incremented twice in a round.
\<close>

function rn_bootstrap_loop :: "int \<Rightarrow> peer list \<Rightarrow> peer list option" where
  "rn_bootstrap_loop i peers =
     (if (of_int i :: u64) < vec_size peers
      then do {
        let p = new_peer (of_int i);
        i' \<leftarrow> int_inc i;
        i'' \<leftarrow> int_inc i';
        rn_bootstrap_loop i'' (peers @ [p])
      }
      else Some peers)"
  by pat_completeness auto

termination
  by (relation "measure (\<lambda>(i, peers). nat (int_max + 1 - i))")
    (auto simp: int_inc_def int_add_def split: if_splits)

definition rn_start_peers :: "bool \<Rightarrow> peer list option" where
  "rn_start_peers join = (let peers = [] in if join then rn_bootstrap_loop 0 peers else Some peers)"

definition rn_start_serve_channels :: "library \<Rightarrow> raft_server \<Rightarrow> raft_server" where
  "rn_start_serve_channels lb s =
     (if lb_timer_add lb \<noteq> 0 then s
      else
        let s = s\<lparr>sv_timer := True\<rparr>;
            s = s\<lparr>sv_propose_queue_id := lb_queue_id lb 1\<rparr>
        in s\<lparr>sv_queue_id := lb_queue_id lb 2\<rparr>)"

text \<open>
  The loop that adds the other peers to the transport: peer \<open>i + 1\<close> for the position \<open>i\<close>.
\<close>

definition rn_add_peer :: "library \<Rightarrow> int \<Rightarrow> string list \<Rightarrow> env \<Rightarrow> nat \<Rightarrow> transport \<Rightarrow> transport option" where
  "rn_add_peer lb own peers g i t =
     (if int i + 1 \<noteq> own then tp_add_peer lb (of_int (int i + 1)) peers t else Some t)"

text \<open>
  \<open>StartRaft\<close>. The pointer that it returns is null on every path. \<open>NewRaft\<close> has an empty body
  and ignores the configuration.
\<close>

definition rn_start_raft :: "library \<Rightarrow> env \<Rightarrow> raft_server \<Rightarrow> raft_server option" where
  "rn_start_raft lb g s = (
     let (created, exists) = lb_create_directory lb (lb_dir_name lb (sv_snapdir s))
     in if \<not> created \<and> \<not> exists then Some s
        else do {
          let config = new_config (sub_call 0 g) (of_int (sv_id s)) 10 1 (1024 * 1024) 256 new_memory_storage;
          peers \<leftarrow> rn_start_peers (sv_join s);
          (node, l, r) \<leftarrow> n_start_node (lb_serialize_conf_change lb) (lb_queue_id lb 0) (sub_call 1 g) peers
                            (sv_raft_log s) (sv_raft s);
          let s = s\<lparr>sv_raft_log := l, sv_raft := r\<rparr>;
          let (_, node) = n_assign node (sv_node s);
          let s = s\<lparr>sv_node := node\<rparr>;
          let (_, t) = tp_init (of_int (sv_id s)) (sv_peers s) 4096 True False (sv_transport s);
          let (_, t) = tp_start t;
          t \<leftarrow> for_each (rn_add_peer lb (sv_id s) (sv_peers s)) (sub_call 2 g) [0..<length (sv_peers s)] t;
          let s = s\<lparr>sv_transport := t\<rparr>;
          Some (rn_start_serve_channels lb s)
        })"

section \<open>Serving\<close>

text \<open>An item is accepted by a queue if \<open>execution_queue_execute\<close> returns 0.\<close>

definition rn_propose :: "library \<Rightarrow> bytes \<Rightarrow> raft_server \<Rightarrow> raft_server" where
  "rn_propose lb buf s =
     (let msg = \<lparr>cm_type = ChannalTypePropose, cm_propose = buf, cm_ready = []\<rparr>;
          q = sv_propose_queue_id s
      in if lb_queue_execute lb q \<noteq> 0 then s
         else s\<lparr>sv_channals := (sv_channals s)(q := sv_channals s q @ [msg])\<rparr>)"

text \<open>The ready message is serialised and not sent along.\<close>

definition rn_execute_ready :: "library \<Rightarrow> message \<Rightarrow> raft_server \<Rightarrow> bool \<times> raft_server" where
  "rn_execute_ready lb msg s =
     (let channel_msg = \<lparr>cm_type = ChannalTypePropose, cm_propose = [], cm_ready = []\<rparr>;
          body = lb_serialize_message lb msg;
          q = sv_queue_id s
      in if lb_queue_execute lb q \<noteq> 0 then (False, s)
         else (True, s\<lparr>sv_channals := (sv_channals s)(q := sv_channals s q @ [channel_msg])\<rparr>))"

definition rn_serve_propose_item :: "library \<Rightarrow> channal_msg \<Rightarrow> raft_server \<Rightarrow> raft_server" where
  "rn_serve_propose_item lb it s =
     (case cm_type it of
        ChannalTypePropose \<Rightarrow>
          let q = nd_queue_id (sv_node s);
              (_, queue) = n_propose (lb_queue_execute lb q) (cm_propose it) (sv_node_queues s q)
          in s\<lparr>sv_node_queues := (sv_node_queues s)(q := queue)\<rparr>
      | _ \<Rightarrow> s)"

definition rn_serve_propose_channels :: "library \<Rightarrow> bool \<Rightarrow> channal_msg list \<Rightarrow> raft_server \<Rightarrow> int rv \<times> raft_server" where
  "rn_serve_propose_channels lb stopped batch s =
     (if stopped then (Returns 0, s) else (NoReturn, fold (rn_serve_propose_item lb) batch s))"

text \<open>Every branch of the loop body is empty.\<close>

definition rn_publish_entry :: "log_entry \<Rightarrow> raft_server \<Rightarrow> raft_server" where
  "rn_publish_entry x s = (if le_type x = EntryNormal then (if le_data x = [] then s else s) else s)"

definition rn_publish_entries :: "log_entry list \<Rightarrow> raft_server \<Rightarrow> bool rv \<times> raft_server" where
  "rn_publish_entries ents s = (NoReturn, fold rn_publish_entry ents s)"

definition rn_serve_item :: "channal_msg \<Rightarrow> raft_server \<Rightarrow> raft_server" where
  "rn_serve_item it s =
     (case cm_type it of
        ChannalTypeReady \<Rightarrow> let ents = []; (_, s) = rn_publish_entries ents s in s
      | _ \<Rightarrow> s)"

definition rn_serve_channels :: "bool \<Rightarrow> channal_msg list \<Rightarrow> raft_server \<Rightarrow> int rv \<times> raft_server" where
  "rn_serve_channels stopped batch s =
     (if stopped then (Returns 0, s) else (NoReturn, fold rn_serve_item batch s))"

definition rn_on_tick_timer :: "library \<Rightarrow> raft_server \<Rightarrow> raft_server" where
  "rn_on_tick_timer lb s =
     (let q = nd_queue_id (sv_node s)
      in s\<lparr>sv_node_queues := (sv_node_queues s)(q := n_tick (lb_queue_execute lb q) (sv_node_queues s q))\<rparr>)"

text \<open>\<open>ServeRaft\<close> reads the own address and parses it; nothing calls it.\<close>

definition rn_serve_raft :: "raft_server \<Rightarrow> raft_server option" where
  "rn_serve_raft s = do {
     url \<leftarrow> vec_at (sv_peers s) (of_int (sv_id s - 1));
     Some s
   }"

definition rn_process :: "message \<Rightarrow> raft_server \<Rightarrow> raft_error rv \<times> raft_server" where
  "rn_process msg s = (NoReturn, s)"

section \<open>Directories\<close>

definition decimal_value :: "string \<Rightarrow> nat" where
  "decimal_value cs = foldl (\<lambda>a c. 10 * a + (of_char c - 48)) 0 cs"

lemma decimal_value: "decimal_value (decimal n) = n"
  by (induction n rule: decimal.induct) (subst decimal.simps, simp add: decimal_value_def)

lemma digit_no_sign: "k < 10 \<Longrightarrow> CHR ''-'' \<noteq> char_of (48 + k :: nat)"
proof
  assume k: "k < 10" and "CHR ''-'' = char_of (48 + k)"
  then have "(of_char (char_of (48 + k)) :: nat) = of_char CHR ''-''" by simp
  with k show False by simp
qed

lemma decimal_digits: "CHR ''-'' \<notin> set (decimal n)"
proof (induction n rule: decimal.induct)
  case (1 n)
  then show ?case
    by (cases "n < 10") (simp_all add: decimal.simps [of n] digit_no_sign)
qed

lemma decimal_inj: "decimal m = decimal n \<Longrightarrow> m = n"
  by (drule arg_cong [of _ _ decimal_value]) (simp only: decimal_value)

lemma decimal_no_sign: "decimal n \<noteq> CHR ''-'' # cs"
  using decimal_digits [of n] by (metis list.set_intros(1))

lemma std_to_string_inj: "std_to_string i = std_to_string j \<Longrightarrow> i = j"
  by (cases "i < 0"; cases "j < 0")
    (auto simp: std_to_string_def decimal_no_sign decimal_no_sign [symmetric] dest!: decimal_inj)

text \<open>Nodes with different ids get different directories.\<close>

theorem example_directories_distinct:
  assumes "sv_snapdir (rn_construct i ps jn s) = sv_snapdir (rn_construct j qs jm t)
    \<or> sv_waldir (rn_construct i ps jn s) = sv_waldir (rn_construct j qs jm t)"
  shows "i = j"
  using assms by (auto simp: rn_construct_def intro: std_to_string_inj)

text \<open>Only the first call of \<open>NewRaftNode\<close> takes its arguments; every later one goes on with the first
  object, whatever it asks for.\<close>

theorem example_second_node_ignored:
  "snd (rn_new_raft_node rc' j qs jm fresh' (snd (rn_new_raft_node rc i ps jn fresh None)))
    = Some (rn_construct i ps jn fresh)"
  by (simp add: rn_new_raft_node_def)

section \<open>Properties of the start\<close>

lemma bootstrap_loop_from:
  assumes "k \<le> n" and "2 * int n \<le> int_max" and "length peers = n + k"
  shows "rn_bootstrap_loop (2 * int k) peers = Some (peers @ map (\<lambda>j. new_peer (of_nat (2 * j))) [k..<n])"
  using assms
proof (induction "n - k" arbitrary: k peers)
  case 0
  then have k: "k = n" by simp
  have "\<not> (of_int (2 * int n) :: u64) < vec_size peers"
    using "0.prems" k by (simp add: vec_size_def u64_less_iff)
  then show ?case by (subst rn_bootstrap_loop.simps) (simp add: k)
next
  case (Suc d)
  then have lt: "k < n" and d: "d = n - Suc k" by simp_all
  have size: "2 * n < 18446744073709551616" using Suc.prems(2) by (simp add: int_max_def)
  have "unat (of_nat (2 * k) :: u64) = 2 * k" "unat (of_nat (n + k) :: u64) = n + k"
    using size lt by (simp_all only: unat_of_nat_u64)
  then have guard: "(of_int (2 * int k) :: u64) < vec_size peers"
    using lt Suc.prems(3) by (simp add: vec_size_def u64_less_iff)
  have "int_inc (2 * int k) = Some (2 * int k + 1)" "int_inc (2 * int k + 1) = Some (2 * int (Suc k))"
    using lt Suc.prems(2) by (simp_all add: int_inc_def int_add_def)
  moreover have "rn_bootstrap_loop (2 * int (Suc k)) (peers @ [new_peer (of_nat (2 * k))])
      = Some ((peers @ [new_peer (of_nat (2 * k))]) @ map (\<lambda>j. new_peer (of_nat (2 * j))) [Suc k..<n])"
    using lt Suc.prems by (intro Suc.hyps(1) [OF d]) simp_all
  ultimately show ?case
    using guard lt by (subst rn_bootstrap_loop.simps) (simp add: upt_conv_Cons)
qed

text \<open>The loop that should list the peers of a joining node returns, although it extends the vector
  that bounds it: the index grows by two in a round and the vector by one, so that from \<open>n\<close>
  elements it appends \<open>n\<close> more, with the even ids from 0. The vector of \<open>StartRaft\<close> is empty, so
  that no peer is ever handed to \<open>StartNode\<close>.\<close>

theorem example_bootstrap_loop_returns:
  assumes "2 * int (length peers) \<le> int_max"
  shows "rn_bootstrap_loop 0 peers = Some (peers @ map (\<lambda>j. new_peer (of_nat (2 * j))) [0..<length peers])
    \<and> rn_start_peers join = Some []"
proof -
  have "rn_bootstrap_loop (2 * int 0) xs = Some (xs @ map (\<lambda>j. new_peer (of_nat (2 * j))) [0..<length xs])"
    if "2 * int (length xs) \<le> int_max" for xs
    using that by (intro bootstrap_loop_from) simp_all
  from this [OF assms] this [of "[]"] show ?thesis
    by (simp add: rn_start_peers_def int_max_def)
qed

theorem example_bootstrap_loop_returns_witness:
  "rn_bootstrap_loop 0 [new_peer 5, new_peer 6] = Some [new_peer 5, new_peer 6, new_peer 0, new_peer 2]"
  using example_bootstrap_loop_returns [of "[new_peer 5, new_peer 6]" True]
  by (simp add: int_max_def upt_conv_Cons)

lemma rn_start_peers_empty: "rn_start_peers join = Some []"
  using bootstrap_loop_from [of 0 0 "[]"] by (simp add: rn_start_peers_def int_max_def)

lemma add_peers_cases:
  "for_each (rn_add_peer lb own peers) g is t = (if \<forall>i\<in>set is. int i + 1 = own then Some t else None)"
proof (induction "is" arbitrary: g)
  case Nil
  show ?case by simp
next
  case (Cons i "is")
  then show ?case by (simp add: rn_add_peer_def tp_add_peer_None)
qed

lemma own_only:
  "(\<forall>i<n. int i + 1 = own) \<longleftrightarrow> n = 0 \<or> (n = 1 \<and> own = 1)"
proof
  assume *: "\<forall>i<n. int i + 1 = own"
  have "n \<le> 1"
  proof (rule ccontr)
    assume "\<not> n \<le> 1"
    then have "0 < n" "1 < n" by simp_all
    then have "int 0 + 1 = own" "int 1 + 1 = own" using * by blast+
    then show False by simp
  qed
  with * show "n = 0 \<or> (n = 1 \<and> own = 1)" by (cases n) auto
qed auto

lemma rn_start_raft_cases:
  assumes "rl_last_index (sv_raft_log s) = Some li"
    and "lb_create_directory lb (lb_dir_name lb (sv_snapdir s)) = (created, exists)" and "created \<or> exists"
  shows "rn_start_raft lb g s =
    (if length (sv_peers s) = 0 \<or> (length (sv_peers s) = 1 \<and> sv_id s = 1)
     then Some (rn_start_serve_channels lb (s
       \<lparr>sv_raft_log := rl_set_committed li (sv_raft_log s),
        sv_raft := r_become_follower (sub_call 0 (sub_call 1 g)) 1 0 (sv_raft s),
        sv_transport := snd (tp_init (of_int (sv_id s)) (sv_peers s) 4096 True False (sv_transport s))\<rparr>))
     else None)"
  using assms own_only [of "length (sv_peers s)" "sv_id s"]
  by (auto simp: rn_start_raft_def rn_start_peers_empty n_start_node_def n_assign_def tp_start_def
      add_peers_cases tp_init_def)

lemma rn_start_raft_keeps:
  assumes "rn_start_raft lb g s = Some s'"
  shows "sv_node s' = sv_node s \<and> sv_node_queues s' = sv_node_queues s"
  using assms
  by (auto simp: rn_start_raft_def rn_start_serve_channels_def n_assign_def bind_eq_Some_conv prod.case_eq_if
      split: if_splits)

text \<open>Over a log with a well-formed storage and with its directory in place, \<open>StartRaft\<close> comes back
  only for a cluster of this one node: the first other address makes it call \<open>AddPeer\<close>, which
  never returns. When it comes back the whole log is committed, the node object still has the
  queue id it had before, although \<open>StartNode\<close> started another queue for it, and the commit is
  the only change of the log.\<close>

theorem example_start_outcome:
  assumes "ms_wf m" and "rl_storage (sv_raft_log s) = Some (ms_storage m)"
    and "log_ok (ms_view m) (rl_unstable (sv_raft_log s))"
    and "lb_create_directory lb (lb_dir_name lb (sv_snapdir s)) = (created, exists)" and "created \<or> exists"
  shows "(rn_start_raft lb g s = None \<longleftrightarrow> 2 \<le> length (sv_peers s) \<or> (length (sv_peers s) = 1 \<and> sv_id s \<noteq> 1))
    \<and> (\<forall>s'. rn_start_raft lb g s = Some s' \<longrightarrow>
        sv_raft_log s' = (sv_raft_log s)\<lparr>rl_committed := of_nat (log_last (ms_view m) (rl_unstable (sv_raft_log s)))\<rparr>
        \<and> sv_node s' = sv_node s \<and> sv_node_queues s' = sv_node_queues s
        \<and> r_state (sv_raft s') = StateFollower \<and> r_term (sv_raft s') = r_term (sv_raft s))"
proof -
  note start = rn_start_raft_cases [OF ms.rl_last_index_valid [OF assms(1-3)] assms(4,5)]
  show ?thesis
    by (cases "length (sv_peers s)")
      (auto simp: start rn_start_serve_channels_def rl_set_committed_def r_become_follower_def r_reset_def
        r_reset_randomized_election_timeout_def)
qed

definition sample_server :: raft_server where
  "sample_server = snd (rn_init 1 [''a''] False (rn_instance sample_log idle_raft))"

lemma sample_server_sel [simp]:
  "sv_id sample_server = 1" "sv_peers sample_server = [''a'']" "sv_raft_log sample_server = sample_log"
  "nd_queue_id (sv_node sample_server) = 0" "sv_node_queues sample_server q = []" "sv_channals sample_server q = []"
  by (simp_all add: sample_server_def rn_init_def rn_instance_def)

theorem example_start_outcome_witness:
  "rn_start_raft sample_library (env_const 0) (sample_server\<lparr>sv_peers := [''a'', ''b'']\<rparr>) = None
    \<and> rn_start_raft sample_library (env_const 0) sample_server \<noteq> None"
proof -
  have dir: "lb_create_directory sample_library d = (False, True)" for d
    by (simp add: sample_library_def)
  show ?thesis
    using example_start_outcome [OF sample_storage_wf, of "sample_server\<lparr>sv_peers := [''a'', ''b'']\<rparr>" sample_library False True]
      example_start_outcome [OF sample_storage_wf, of sample_server sample_library False True]
      sample_log_storage sample_log_ok
    by (simp add: dir)
qed

text \<open>On the log that \<open>GetRaftLog\<close> really returns, without a storage, \<open>StartRaft\<close> never comes back.\<close>

theorem example_start_without_storage:
  assumes "sv_raft_log s = static_raft_log"
    and "lb_create_directory lb (lb_dir_name lb (sv_snapdir s)) = (created, exists)" and "created \<or> exists"
  shows "rn_start_raft lb g s = None"
  using assms node_start_without_storage
  by (auto simp: rn_start_raft_def rn_start_peers_empty)

end
