(* ===== verification/Kv_Store.thy ===== *)
theory Kv_Store
  imports Raft_Example
begin

text \<open>
  \<^verbatim>\<open>src/examples/raftexample/kvstore.*\<close>, \<^verbatim>\<open>httpapi.*\<close> and \<^verbatim>\<open>main.cpp\<close>: the key-value store
  on top of the \<open>RaftNode\<close> of \<open>Raft_Example\<close>, its HTTP handlers, and runs of the whole program.
  A proposal travels from \<open>KvStore::Propose\<close> over the propose queue of the \<open>RaftNode\<close> and
  \<open>Node::Propose\<close> into the queue of the node, where \<open>Node::Run\<close> of \<open>Raft_Node\<close> would take it up.
\<close>

section \<open>The store\<close>

datatype kv_msg_type = MsgTypeKV | MsgTypeError

text \<open>The command of a message is a byte that is compared with the values of the enumeration.\<close>

definition kv_cmd :: "kv_msg_type \<Rightarrow> 8 word" where
  "kv_cmd t = (case t of MsgTypeKV \<Rightarrow> 0 | MsgTypeError \<Rightarrow> 1)"

record kv_channal_msg =
  km_cmd :: "8 word"
  km_body :: bytes

record kv_store =
  kv_snapshotter :: bool
  kv_store_map :: "bytes \<Rightarrow> bytes option"
  kv_queue_id :: u64
  kv_queues :: "u64 \<Rightarrow> kv_channal_msg list"

definition kv_new_kv_store :: "int \<Rightarrow> u64 \<Rightarrow> bool \<Rightarrow> kv_store \<Rightarrow> bool \<times> kv_store" where
  "kv_new_kv_store rc new_id snapshotter kv =
     (let kv = kv\<lparr>kv_snapshotter := snapshotter\<rparr>
      in if rc \<noteq> 0 then (False, kv) else (True, kv\<lparr>kv_queue_id := new_id\<rparr>))"

definition kv_propose :: "library \<Rightarrow> bytes \<Rightarrow> bytes \<Rightarrow> raft_server \<Rightarrow> raft_server" where
  "kv_propose lb key val s = (let buf = lb_serialize_kv lb (key, val) in rn_propose lb buf s)"

definition kv_commit :: "library \<Rightarrow> kv_channal_msg \<Rightarrow> kv_store \<Rightarrow> bool \<times> kv_store" where
  "kv_commit lb msg kv =
     (let q = kv_queue_id kv
      in if lb_queue_execute lb q \<noteq> 0 then (False, kv)
         else (True, kv\<lparr>kv_queues := (kv_queues kv)(q := kv_queues kv q @ [msg])\<rparr>))"

text \<open>\<open>Lookup\<close> takes its result by constant reference and never writes it.\<close>

definition kv_lookup :: "bytes \<Rightarrow> bytes \<Rightarrow> kv_store \<Rightarrow> bool \<times> kv_store" where
  "kv_lookup key val kv = (True, kv)"

definition kv_read_commit :: "kv_channal_msg \<Rightarrow> kv_store \<Rightarrow> kv_store" where
  "kv_read_commit it kv =
     (if km_cmd it = kv_cmd MsgTypeKV then (if km_body it = [] then kv else kv)
      else if km_cmd it = kv_cmd MsgTypeError then kv
      else kv)"

definition kv_read_commits :: "bool \<Rightarrow> kv_channal_msg list \<Rightarrow> kv_store \<Rightarrow> int rv \<times> kv_store" where
  "kv_read_commits stopped batch kv =
     (if stopped then (Returns 0, kv) else (NoReturn, fold kv_read_commit batch kv))"

section \<open>HTTP handlers\<close>

text \<open>The status code that a handler sets, if it does.\<close>

definition http_post :: "kv_store \<Rightarrow> int option \<times> kv_store" where
  "http_post kv = (let conf_change = new_conf_change\<lparr>cc_id := 1\<rparr> in (Some 204, kv))"

definition http_put :: "bytes \<Rightarrow> kv_store \<Rightarrow> int option \<times> kv_store" where
  "http_put message kv = (let key = ([] :: bytes); value = message in (Some 204, kv))"

definition http_get :: "bytes \<Rightarrow> kv_store \<Rightarrow> int option \<times> kv_store" where
  "http_get message kv = (let key = ([] :: bytes); value = message; (_, kv) = kv_lookup key value kv in (None, kv))"

text \<open>\<open>ServeHttpKVAPI\<close> has no result; the model tells whether it got as far as serving.\<close>

definition http_serve_kv_api :: "library \<Rightarrow> int \<Rightarrow> bool" where
  "http_serve_kv_api lb port =
     (if lb_add_service lb \<noteq> 0 then False else if lb_server_start lb port \<noteq> 0 then False else True)"

text \<open>
  \<open>main\<close>, with the values of the flags and what creating the thread of \<open>StartRaft\<close> and the
  queue of the store return. The function ends without a return statement, which is 0 for \<open>main\<close>.
\<close>

definition example_main ::
    "library \<Rightarrow> int \<Rightarrow> int \<Rightarrow> int \<Rightarrow> string list \<Rightarrow> bool \<Rightarrow> int \<Rightarrow> raft_server \<times> kv_store
      \<Rightarrow> int \<times> raft_server \<times> kv_store" where
  "example_main lb thread_rc queue_rc i peers join kvport x = (
     let (s, kv) = x;
         (_, s) = rn_init i peers join s
     in if \<not> rn_start thread_rc then (- 1, s, kv)
        else
          let (ok, kv) = kv_new_kv_store queue_rc (lb_queue_id lb 3) False kv
          in if \<not> ok then (- 1, s, kv)
             else let _ = http_serve_kv_api lb kvport in (0, s, kv))"

section \<open>Runs of the program\<close>

text \<open>
  What can happen to the program: the thread of \<open>StartRaft\<close>, calls of the public functions, batches
  that the queues deliver, the timer, HTTP requests. \<open>ExNodeRun stopped n\<close> is the consumer of the
  queue that \<open>StartNode\<close> started, which gives the \<open>n\<close> oldest items to \<open>Node::Run\<close>; the consumer of an
  execution queue is not called without items, but once when the queue is stopped.
\<close>

datatype example_event =
    ExStart
  | ExNodeRun bool nat
  | ExPropose bytes bytes
  | ExExecuteReady message
  | ExProcess message
  | ExServePropose bool "channal_msg list"
  | ExServe bool "channal_msg list"
  | ExTimer
  | ExCommit kv_channal_msg
  | ExReadCommits bool "kv_channal_msg list"
  | ExPut bytes
  | ExGet bytes
  | ExPost

definition ex_node_run :: "library \<Rightarrow> env \<Rightarrow> bool \<Rightarrow> nat \<Rightarrow> raft_server \<Rightarrow> raft_server option" where
  "ex_node_run lb g stopped n s = (
     let q = lb_queue_id lb 0;
         batch = take n (sv_node_queues s q)
     in if \<not> stopped \<and> batch = [] then Some s
        else do {
          (_, r) \<leftarrow> n_run g stopped batch (sv_raft s);
          Some (s\<lparr>sv_raft := r, sv_node_queues := (sv_node_queues s)(q := drop n (sv_node_queues s q))\<rparr>)
        })"

definition ex_step :: "library \<Rightarrow> env \<Rightarrow> example_event \<Rightarrow> raft_server \<times> kv_store \<Rightarrow> (raft_server \<times> kv_store) option" where
  "ex_step lb g ev x = (
     let (s, kv) = x in
     case ev of
        ExStart \<Rightarrow> do { s \<leftarrow> rn_start_raft lb g s; Some (s, kv) }
      | ExNodeRun stopped n \<Rightarrow> do { s \<leftarrow> ex_node_run lb g stopped n s; Some (s, kv) }
      | ExPropose key val \<Rightarrow> Some (kv_propose lb key val s, kv)
      | ExExecuteReady msg \<Rightarrow> Some (snd (rn_execute_ready lb msg s), kv)
      | ExProcess msg \<Rightarrow> Some (snd (rn_process msg s), kv)
      | ExServePropose stopped batch \<Rightarrow> Some (snd (rn_serve_propose_channels lb stopped batch s), kv)
      | ExServe stopped batch \<Rightarrow> Some (snd (rn_serve_channels stopped batch s), kv)
      | ExTimer \<Rightarrow> Some (if sv_timer s then rn_on_tick_timer lb (s\<lparr>sv_timer := False\<rparr>) else s, kv)
      | ExCommit msg \<Rightarrow> Some (s, snd (kv_commit lb msg kv))
      | ExReadCommits stopped batch \<Rightarrow> Some (s, snd (kv_read_commits stopped batch kv))
      | ExPut message \<Rightarrow> Some (s, snd (http_put message kv))
      | ExGet message \<Rightarrow> Some (s, snd (http_get message kv))
      | ExPost \<Rightarrow> Some (s, snd (http_post kv)))"

text \<open>\<open>tick_budget\<close>: the ticks that the queue of \<open>node_\<close> holds and the one that may still come.\<close>

definition tick_budget :: "raft_server \<Rightarrow> nat" where
  "tick_budget s = count_if (\<lambda>m. nm_type m = MsgTypeTick) (sv_node_queues s (nd_queue_id (sv_node s)))
     + (if sv_timer s then 1 else 0)"

text \<open>
  \<open>cut_off\<close>: the queue that \<open>StartNode\<close> starts is empty and is not the one that \<open>node_\<close> writes to.
  \<open>restarted\<close>: what \<open>BecomeFollower\<close>, the only call of a start that reaches the raft object, does.
\<close>

definition cut_off :: "library \<Rightarrow> raft_server \<Rightarrow> bool" where
  "cut_off lb s \<longleftrightarrow> lb_queue_id lb 0 \<noteq> nd_queue_id (sv_node s) \<and> sv_node_queues s (lb_queue_id lb 0) = []"

definition restarted :: "raft \<Rightarrow> raft \<Rightarrow> bool" where
  "restarted r t \<longleftrightarrow> (\<exists>d. t = r\<lparr>r_step_func := Some StepFollower, r_tick_func := Some TickElection,
     r_lead := 0, r_state := StateFollower, r_randomized_election_timeout := d\<rparr>)"

text \<open>What a run with \<open>n\<close> starts can do to a program that is cut off from its node.\<close>

definition ex_le :: "library \<Rightarrow> nat \<Rightarrow> raft_server \<times> kv_store \<Rightarrow> raft_server \<times> kv_store \<Rightarrow> bool" where
  "ex_le lb n x y \<longleftrightarrow> cut_off lb (fst y) \<and> sv_node (fst y) = sv_node (fst x) \<and> sv_snapdir (fst y) = sv_snapdir (fst x)
     \<and> kv_store_map (snd y) = kv_store_map (snd x) \<and> tick_budget (fst y) \<le> tick_budget (fst x) + n
     \<and> (if n = 0 then sv_raft (fst y) = sv_raft (fst x) \<and> sv_raft_log (fst y) = sv_raft_log (fst x)
        else (sv_raft (fst y) = sv_raft (fst x) \<or> restarted (sv_raft (fst x)) (sv_raft (fst y)))
          \<and> (\<exists>c. sv_raft_log (fst y) = (sv_raft_log (fst x))\<lparr>rl_committed := c\<rparr>))"

lemma restarted_trans: "restarted r s \<Longrightarrow> restarted s t \<Longrightarrow> restarted r t"
  by (auto simp: restarted_def)

lemma ex_le_refl [simp]: "cut_off lb (fst x) \<Longrightarrow> ex_le lb 0 x x"
  by (simp add: ex_le_def)

lemma ex_le_trans: "ex_le lb n x y \<Longrightarrow> ex_le lb m y z \<Longrightarrow> ex_le lb (n + m) x z"
  by (auto simp: ex_le_def dest: restarted_trans split: if_splits)

lemma count_if_simps [simp]: "count_if P [] = 0" "count_if P (x # xs) = (if P x then Suc (count_if P xs) else count_if P xs)"
  by (simp_all add: count_if_def)

lemma serve_propose_le: "cut_off lb s \<Longrightarrow> ex_le lb 0 (s, kv) (fold (rn_serve_propose_item lb) batch s, kv)"
proof (induction batch arbitrary: s)
  case (Cons it batch)
  have one: "ex_le lb 0 (s, kv) (rn_serve_propose_item lb it s, kv)"
    using Cons.prems
    by (auto simp: ex_le_def cut_off_def rn_serve_propose_item_def n_propose_def tick_budget_def split: channal_type.split)
  then have "cut_off lb (rn_serve_propose_item lb it s)" by (simp add: ex_le_def)
  from ex_le_trans [OF one Cons.IH [OF this]] show ?case by simp
qed simp

lemma rn_publish_entries_id [simp]: "rn_publish_entries ents s = (NoReturn, s)"
  by (induction ents) (simp_all add: rn_publish_entries_def rn_publish_entry_def)

lemma rn_serve_id [simp]: "fold rn_serve_item batch s = s"
  by (induction batch) (simp_all add: rn_serve_item_def split: channal_type.split)

lemma kv_read_commit_id [simp]: "fold kv_read_commit batch kv = kv"
  by (induction batch) (simp_all add: kv_read_commit_def)

lemma start_le:
  assumes "rn_start_raft lb g s = Some t" and "cut_off lb s"
  shows "ex_le lb 1 (s, kv) (t, kv)"
proof -
  note keeps = rn_start_raft_keeps [OF assms(1)]
  have raft: "sv_raft t = sv_raft s \<or> (\<exists>h. sv_raft t = r_become_follower h 1 0 (sv_raft s))"
    and log: "sv_raft_log t = sv_raft_log s \<or> (\<exists>c. sv_raft_log t = (sv_raft_log s)\<lparr>rl_committed := c\<rparr>)"
    and dir: "sv_snapdir t = sv_snapdir s"
    using assms(1)
    by (auto simp: rn_start_raft_def rn_start_peers_empty n_start_node_def rl_set_committed_def rn_start_serve_channels_def
        bind_eq_Some_conv prod.case_eq_if split: if_splits)
  have "restarted r (r_become_follower h 1 0 r)" for h r
    unfolding restarted_def
    by (intro exI [of _ "r_randomized_election_timeout (r_become_follower h 1 0 r)"])
      (simp add: r_become_follower_def r_reset_def r_reset_randomized_election_timeout_def)
  then have "sv_raft t = sv_raft s \<or> restarted (sv_raft s) (sv_raft t)" using raft by auto
  moreover have "\<exists>c. sv_raft_log t = (sv_raft_log s)\<lparr>rl_committed := c\<rparr>"
    using log by (auto intro: exI [of _ "rl_committed (sv_raft_log s)"])
  ultimately show ?thesis
    using assms(2) keeps dir by (simp add: ex_le_def cut_off_def tick_budget_def)
qed

lemma ex_node_run_id: "cut_off lb s \<Longrightarrow> ex_node_run lb g stopped n s = Some s"
  by (simp add: ex_node_run_def cut_off_def n_run_def fun_upd_idem)

text \<open>Most events leave alone what the order is about.\<close>

definition ex_view :: "raft_server \<Rightarrow> node \<times> string \<times> bool \<times> raft_log \<times> raft \<times> (u64 \<Rightarrow> node_recv_msg list)" where
  "ex_view s = (sv_node s, sv_snapdir s, sv_timer s, sv_raft_log s, sv_raft s, sv_node_queues s)"

lemma quiet_le: "cut_off lb s \<Longrightarrow> ex_view t = ex_view s \<Longrightarrow> kv_store_map kv' = kv_store_map kv \<Longrightarrow> ex_le lb 0 (s, kv) (t, kv')"
  by (simp add: ex_view_def ex_le_def cut_off_def tick_budget_def)

lemma ex_view_simps [simp]:
  "ex_view (kv_propose lb key val s) = ex_view s" "ex_view (snd (rn_execute_ready lb msg s)) = ex_view s"
  "ex_view (snd (rn_process msg s)) = ex_view s" "ex_view (snd (rn_serve_channels stopped cs s)) = ex_view s"
  by (simp_all add: ex_view_def kv_propose_def rn_propose_def rn_execute_ready_def rn_process_def rn_serve_channels_def)

lemma kv_store_map_simps [simp]:
  "kv_store_map (snd (kv_commit lb m kv)) = kv_store_map kv" "kv_store_map (snd (kv_read_commits stopped cs kv)) = kv_store_map kv"
  "kv_store_map (snd (http_put b kv)) = kv_store_map kv" "kv_store_map (snd (http_get b kv)) = kv_store_map kv"
  "kv_store_map (snd (http_post kv)) = kv_store_map kv"
  by (simp_all add: kv_commit_def kv_read_commits_def http_put_def http_get_def http_post_def kv_lookup_def)

lemma timer_le: "cut_off lb s \<Longrightarrow> sv_timer s \<Longrightarrow> ex_le lb 0 (s, kv) (rn_on_tick_timer lb (s\<lparr>sv_timer := False\<rparr>), kv)"
  by (simp add: ex_le_def cut_off_def rn_on_tick_timer_def n_tick_def tick_budget_def)

lemma ex_step_le:
  assumes "cut_off lb (fst x)" and "ex_step lb g ev x = Some y"
  shows "ex_le lb (if ev = ExStart then 1 else 0) x y"
proof -
  obtain s kv where x: "x = (s, kv)" by (cases x)
  have off: "cut_off lb s" using assms(1) by (simp add: x)
  show ?thesis
  proof (cases ev)
    case ExStart
    with assms(2) start_le [OF _ off] show ?thesis by (auto simp: x ex_step_def bind_eq_Some_conv)
  next
    case (ExServePropose stopped batch)
    with assms(2) serve_propose_le [OF off] off show ?thesis
      by (auto simp: x ex_step_def rn_serve_propose_channels_def)
  next
    case ExTimer
    with assms(2) timer_le [OF off] off show ?thesis by (auto simp: x ex_step_def)
  qed (use assms(2) off in \<open>auto simp: x ex_step_def ex_node_run_id quiet_le\<close>)
qed

lemma ex_run_le:
  assumes "for_each (ex_step lb) g evs x = Some y" and "cut_off lb (fst x)"
  shows "ex_le lb (count_if (\<lambda>ev. ev = ExStart) evs) x y"
  using assms
proof (induction evs arbitrary: g x)
  case (Cons ev evs)
  then obtain z where z: "ex_step lb (sub_call 0 g) ev x = Some z" "for_each (ex_step lb) (sub_call 1 g) evs z = Some y"
    by (auto simp: bind_eq_Some_conv)
  note one = ex_step_le [OF Cons.prems(2) z(1)]
  then have "cut_off lb (fst z)" by (simp add: ex_le_def)
  from ex_le_trans [OF one Cons.IH [OF z(2) this]] show ?case by (cases "ev = ExStart") simp_all
qed simp

text \<open>Over the log that the program has, which never got a storage, no start comes back.\<close>

definition start_faults :: "library \<Rightarrow> raft_server \<Rightarrow> bool" where
  "start_faults lb s \<longleftrightarrow> sv_raft_log s = static_raft_log
     \<and> (let (created, exists) = lb_create_directory lb (lb_dir_name lb (sv_snapdir s)) in created \<or> exists)"

lemma ex_run_no_start:
  assumes "for_each (ex_step lb) g evs x = Some y" and "cut_off lb (fst x)" and "start_faults lb (fst x)"
  shows "ExStart \<notin> set evs"
  using assms
proof (induction evs arbitrary: g x)
  case (Cons ev evs)
  then obtain z where z: "ex_step lb (sub_call 0 g) ev x = Some z" "for_each (ex_step lb) (sub_call 1 g) evs z = Some y"
    by (auto simp: bind_eq_Some_conv)
  have "rn_start_raft lb h (fst x) = None" for h
    using Cons.prems(3) by (auto simp: start_faults_def intro: example_start_without_storage split: prod.splits)
  then have ev: "ev \<noteq> ExStart" using z(1) by (auto simp: ex_step_def prod.case_eq_if)
  with ex_step_le [OF Cons.prems(2) z(1)] have "ex_le lb 0 x z" by simp
  with Cons.prems(3) have "cut_off lb (fst z)" "start_faults lb (fst z)" by (simp_all add: ex_le_def start_faults_def)
  from Cons.IH [OF z(2) this] ev show ?case by simp
qed simp

section \<open>Properties\<close>

abbreviation proposal_msg :: "library \<Rightarrow> bytes \<times> bytes \<Rightarrow> channal_msg" where
  "proposal_msg lb x \<equiv> \<lparr>cm_type = ChannalTypePropose, cm_propose = lb_serialize_kv lb x, cm_ready = []\<rparr>"

abbreviation proposal_item :: "library \<Rightarrow> bytes \<times> bytes \<Rightarrow> node_recv_msg" where
  "proposal_item lb x \<equiv> \<lparr>nm_type = MsgTypeProp, nm_body = BodyString (lb_serialize_kv lb x)\<rparr>"

text \<open>
  The two channels on the way: from the store to the propose queue, which leaves the queue of
  the node alone, and from the propose queue to the queue of the node.
\<close>

definition node_items :: "raft_server \<Rightarrow> node_recv_msg list" where
  "node_items s = sv_node_queues s (nd_queue_id (sv_node s))"

interpretation store_channel: fifo_channel "\<lambda>x. kv_propose lb (fst x) (snd x)"
    "\<lambda>s. sv_channals s (sv_propose_queue_id s)" "\<lambda>x. proposal_msg lb x"
    "\<lambda>s. lb_queue_execute lb (sv_propose_queue_id s) = 0 \<and> lb_queue_execute lb (nd_queue_id (sv_node s)) = 0
      \<and> node_items s = items" for lb items
  by unfold_locales (auto simp: kv_propose_def rn_propose_def node_items_def)

interpretation node_channel: fifo_channel "\<lambda>x. rn_serve_propose_item lb (proposal_msg lb x)"
    node_items "\<lambda>x. proposal_item lb x" "\<lambda>s. lb_queue_execute lb (nd_queue_id (sv_node s)) = 0" for lb
  by unfold_locales (auto simp: rn_serve_propose_item_def n_propose_def node_items_def)

lemma proposals_undefined:
  assumes "kvs \<noteq> []"
  shows "n_run g False (map (proposal_item lb) kvs) r = None"
  using assms
  by (cases kvs) (simp_all add: n_run_def n_item_def as_message_def)

text \<open>The pairs that are proposed to the store reach the queue of the node completely and in the
  order of the calls, each as the bytes that protobuf makes of it, if both queues accept; and
  the batch that the node is then given cannot be run, because \<open>Run\<close> takes the string of the
  first item for a message.\<close>

theorem kv_proposals_end_undefined:
  assumes "lb_queue_execute lb (sv_propose_queue_id s) = 0" and "lb_queue_execute lb (nd_queue_id (sv_node s)) = 0"
    and "sv_channals s (sv_propose_queue_id s) = []" and "sv_node_queues s (nd_queue_id (sv_node s)) = []"
    and "kvs \<noteq> []"
  shows "let s' = fold (\<lambda>x. kv_propose lb (fst x) (snd x)) kvs s;
      (_, s') = rn_serve_propose_channels lb False (sv_channals s' (sv_propose_queue_id s')) s';
      batch = sv_node_queues s' (nd_queue_id (sv_node s'))
    in batch = map (\<lambda>x. \<lparr>nm_type = MsgTypeProp, nm_body = BodyString (lb_serialize_kv lb x)\<rparr>) kvs
      \<and> n_run g False batch r = None"
proof -
  let ?s = "fold (\<lambda>x. kv_propose lb (fst x) (snd x)) kvs s"
  have start: "lb_queue_execute lb (sv_propose_queue_id s) = 0 \<and> lb_queue_execute lb (nd_queue_id (sv_node s)) = 0
      \<and> node_items s = []"
    using assms(1,2,4) by (simp add: node_items_def)
  note sent = store_channel.all_arrive [OF start] and kept = store_channel.all_open [OF start]
  have served: "fold (rn_serve_propose_item lb) (map (\<lambda>x. proposal_msg lb x) kvs) ?s
      = fold (\<lambda>x. rn_serve_propose_item lb (proposal_msg lb x)) kvs ?s"
    by (simp add: fold_map comp_def)
  have "node_items (fold (\<lambda>x. rn_serve_propose_item lb (proposal_msg lb x)) kvs ?s) = map (\<lambda>x. proposal_item lb x) kvs"
    using kept by (subst node_channel.all_arrive) auto
  then show ?thesis
    using proposals_undefined [OF assms(5), of g lb r] assms(3)
    by (simp add: rn_serve_propose_channels_def sent served node_items_def)
qed

theorem kv_proposals_end_undefined_witness:
  "let s' = fold (\<lambda>x. kv_propose sample_library (fst x) (snd x)) [([1], [2]), ([3], [4])] sample_server;
      (_, s') = rn_serve_propose_channels sample_library False (sv_channals s' (sv_propose_queue_id s')) s';
      batch = sv_node_queues s' (nd_queue_id (sv_node s'))
    in batch = [\<lparr>nm_type = MsgTypeProp, nm_body = BodyString [1, 2]\<rparr>, \<lparr>nm_type = MsgTypeProp, nm_body = BodyString [3, 4]\<rparr>]
      \<and> n_run (env_const 0) False batch idle_raft = None"
proof -
  have lib: "lb_queue_execute sample_library q = 0" "lb_serialize_kv sample_library (k, v) = k @ v" for q k v
    by (simp_all add: sample_library_def)
  show ?thesis
    using kv_proposals_end_undefined [of sample_library sample_server "[([1], [2]), ([3], [4])]" "env_const 0" idle_raft]
    by (simp add: lib)
qed

text \<open>C29: The example program never reaches the node that it started. Take any run: the thread of
  \<open>StartRaft\<close> (any number of times), the consumer of the queue that \<open>StartNode\<close> started, which runs
  \<open>Node::Run\<close> on whatever is there, proposals, ready messages, batches of the other queues, the
  timer, HTTP requests. The queue of \<open>StartNode\<close> is a new one (its id is not the one that \<open>node_\<close>
  has) and empty. Then it stays empty, because the assignment to \<open>node_\<close> does not take its id over, so
  that \<open>Node::Run\<close> never handles an item: the raft object changes by the \<open>BecomeFollower\<close> of a start
  only, and the log by its \<open>SetCommited\<close> only. There is at most one tick more per start, and it
  goes to the other queue. The key-value map never changes, so that no write is ever seen.
  If the log is the one the program has, which never gets a storage, and the directory is there,
  a run without a fault contains no start at all, because \<open>StartNode\<close> follows a null pointer.\<close>

theorem example_program_is_inert:
  assumes "lb_queue_id lb 0 \<noteq> nd_queue_id (sv_node s)" and "sv_node_queues s (lb_queue_id lb 0) = []"
    and "for_each (ex_step lb) g evs (s, kv) = Some (s', kv')"
  shows "sv_node_queues s' (lb_queue_id lb 0) = [] \<and> nd_queue_id (sv_node s') = nd_queue_id (sv_node s)
    \<and> tick_budget s' \<le> tick_budget s + count_if (\<lambda>ev. ev = ExStart) evs
    \<and> (sv_raft s' = sv_raft s \<or> ExStart \<in> set evs \<and> (\<exists>d. sv_raft s' = (sv_raft s)\<lparr>r_step_func := Some StepFollower,
        r_tick_func := Some TickElection, r_lead := 0, r_state := StateFollower, r_randomized_election_timeout := d\<rparr>))
    \<and> (sv_raft_log s' = sv_raft_log s \<or> ExStart \<in> set evs \<and> (\<exists>c. sv_raft_log s' = (sv_raft_log s)\<lparr>rl_committed := c\<rparr>))
    \<and> kv_store_map kv' = kv_store_map kv
    \<and> (sv_raft_log s = static_raft_log
        \<and> (let (created, exists) = lb_create_directory lb (lb_dir_name lb (sv_snapdir s)) in created \<or> exists)
        \<longrightarrow> ExStart \<notin> set evs)"
proof -
  have off: "cut_off lb (fst (s, kv))" using assms(1,2) by (simp add: cut_off_def)
  have none: "count_if (\<lambda>ev. ev = ExStart) evs = 0 \<longleftrightarrow> ExStart \<notin> set evs" by (induction evs) auto
  show ?thesis
    using ex_run_le [OF assms(3) off] ex_run_no_start [OF assms(3) off]
    by (auto simp: ex_le_def cut_off_def restarted_def start_faults_def none split: if_splits)
qed

definition empty_store :: kv_store where
  "empty_store = \<lparr>kv_snapshotter = False, kv_store_map = (\<lambda>_. None), kv_queue_id = 0, kv_queues = (\<lambda>_. [])\<rparr>"

text \<open>The witness is a program over a log with a storage, which starts, ticks and runs its node, and
  the program over the log without a storage.\<close>

theorem example_program_is_inert_witness:
  "\<exists>s' kv'. for_each (ex_step sample_library) (env_const 0)
        [ExStart, ExTimer, ExNodeRun False 1, ExPropose [1] [2], ExPut [3]] (sample_server, empty_store) = Some (s', kv')
    \<and> sv_node_queues s' 7 = [] \<and> r_election_elapsed (sv_raft s') = 0 \<and> kv_store_map kv' [1] = None
    \<and> (\<forall>evs g. for_each (ex_step sample_library) g (evs @ [ExStart])
          (sample_server\<lparr>sv_raft_log := static_raft_log\<rparr>, empty_store) = None)"
proof -
  let ?evs = "[ExStart, ExTimer, ExNodeRun False 1, ExPropose [1] [2], ExPut [3]]"
  have dir: "lb_create_directory sample_library d = (False, True)" and qid: "lb_queue_id sample_library 0 = 7" for d
    by (simp_all add: sample_library_def)
  obtain s where s: "rn_start_raft sample_library (env_const 0) sample_server = Some s"
    using rn_start_raft_cases [of sample_server 5 sample_library False True] sample_log_last_index
    by (simp add: dir)
  then have off: "cut_off sample_library s"
    using start_le [OF s, of empty_store] by (simp add: ex_le_def cut_off_def qid)
  have off1: "cut_off sample_library (rn_on_tick_timer sample_library (s\<lparr>sv_timer := False\<rparr>))"
    using off by (simp add: cut_off_def rn_on_tick_timer_def n_tick_def)
  obtain s' kv' where run: "for_each (ex_step sample_library) (env_const 0) ?evs (sample_server, empty_store) = Some (s', kv')"
    using off off1 by (cases "sv_timer s") (simp_all add: ex_step_def s ex_node_run_id)
  have "kv_store_map empty_store = (\<lambda>_. None)" by (simp add: empty_store_def)
  moreover have "r_election_elapsed (sv_raft sample_server) = 0"
    by (simp add: sample_server_def rn_init_def rn_instance_def idle_raft_def)
  moreover have "for_each (ex_step sample_library) g (evs @ [ExStart])
      (sample_server\<lparr>sv_raft_log := static_raft_log\<rparr>, empty_store) = None" for evs g
  proof (rule ccontr)
    assume "\<not> ?thesis"
    then obtain t kv where "for_each (ex_step sample_library) g (evs @ [ExStart])
      (sample_server\<lparr>sv_raft_log := static_raft_log\<rparr>, empty_store) = Some (t, kv)" by auto
    from example_program_is_inert [OF _ _ this] show False by (simp add: qid dir)
  qed
  ultimately show ?thesis
    using example_program_is_inert [OF _ _ run] run by (auto simp: qid)
qed

text \<open>\<open>main\<close> reports success exactly if the thread and the queue could be created; an HTTP server
  that did not start is not reported.\<close>

theorem example_main_exit_code:
  "fst (example_main lb thread_rc queue_rc i peers join kvport x) = (if thread_rc = 0 \<and> queue_rc = 0 then 0 else - 1)"
  by (simp add: example_main_def rn_init_def rn_start_def kv_new_kv_store_def split: prod.split)

end
