(* ===== verification/Log_Reads.thy ===== *)
theory Log_Reads
  imports Raft_Log
begin

text \<open>
  What is read back from a \<open>RaftLog\<close>: entries that were appended to the tail, and slices over the
  memory storage and the tail, on every branch.
\<close>

section \<open>Appending\<close>

lemma appended_log_ok:
  assumes "log_ok v u" and "contiguous a es" and "es \<noteq> []" and "a + length es \<le> 9223372036854775808"
    and "a = un_next u \<or> (lv_base v < a \<and> a \<le> unat (un_offset u))"
  shows "log_ok v (appended es u)" and "log_last v (appended es u) = a + length es - 1"
    and "unat (un_offset (appended es u)) \<le> a"
proof -
  have u: "un_wf u" using assms(1) by (simp add: log_ok_def)
  have a: "unat (le_index (hd es)) = a" using assms(2,3) by (rule contiguous_hd)
  have "un_wf (appended es u)"
    using assms(5) by (intro un_append_appended(2) [OF u assms(2-4)]) auto
  then show "log_ok v (appended es u)" "log_last v (appended es u) = a + length es - 1"
    "unat (un_offset (appended es u)) \<le> a"
    using assms(1,3,5) a by (auto simp: log_ok_def log_last_def appended_def un_next_def)
qed

lemma rl_append_vec_appended:
  assumes "ms_wf m" and "rl_storage l = Some (ms_storage m)" and "log_ok (ms_view m) (rl_unstable l)"
    and "contiguous a es" and "es \<noteq> []" and "a + length es \<le> 9223372036854775808"
    and "a = un_next (rl_unstable l) \<or> (ms_base m < a \<and> a \<le> unat (un_offset (rl_unstable l)))"
  shows "rl_append_vec es l
    = Some (of_nat (a + length es - 1), l\<lparr>rl_unstable := appended es (rl_unstable l)\<rparr>)"
proof -
  let ?u = "rl_unstable l" and ?l = "l\<lparr>rl_unstable := appended es (rl_unstable l)\<rparr>"
  have u: "un_wf ?u" using assms(3) by (simp add: log_ok_def)
  have "un_truncate_and_append es ?u = Some (appended es ?u)"
    using assms(7) by (intro un_append_appended(1) [OF u assms(4-6)]) auto
  moreover have "rl_last_index ?l = Some (of_nat (a + length es - 1))"
    using appended_log_ok [OF assms(3-6)] assms(1,2,7) ms.rl_last_index_valid [of m ?l] by simp
  ultimately show ?thesis using assms(5) by (simp add: rl_append_vec_def)
qed

text \<open>C35: Appending a batch that continues the log, or that replaces its whole tail, makes the end of
  the batch the end of the log and keeps the commit index; reading the positions of the batch
  back, with \<open>Slice\<close> or with \<open>Entries\<close>, gives exactly the batch, whatever size limit is asked for.\<close>

theorem log_append_reads_back:
  assumes "ms_wf m" and "rl_storage l = Some (ms_storage m)" and "log_ok (ms_view m) (rl_unstable l)"
    and "contiguous a es" and "es \<noteq> []" and "a + length es \<le> 9223372036854775808"
    and "a = un_next (rl_unstable l) \<or> (ms_base m < a \<and> a \<le> unat (un_offset (rl_unstable l)))"
  shows "\<exists>l'. rl_append_vec es l = Some (of_nat (a + length es - 1), l')
    \<and> log_ok (ms_view m) (rl_unstable l') \<and> rl_committed l' = rl_committed l
    \<and> rl_slice l' (of_nat a) (of_nat (a + length es)) mx out = Some (ErrNone, out @ es)
    \<and> rl_entries l' (of_nat a) mx out = Some (ErrNone, out @ es)"
proof -
  let ?u = "rl_unstable l" and ?l = "l\<lparr>rl_unstable := appended es (rl_unstable l)\<rparr>"
  have u: "un_wf ?u" and w: "a = un_next ?u \<or> (lv_base (ms_view m) < a \<and> a \<le> unat (un_offset ?u))"
    using assms(3,7) by (simp_all add: log_ok_def)
  note ok = appended_log_ok [OF assms(3-6) w]
  have len: "0 < length es" using assms(5) by simp
  have words: "unat (of_nat a :: u64) = a" "unat (of_nat (a + length es) :: u64) = a + length es"
    "unat (of_nat (a + length es - 1) :: u64) = a + length es - 1"
    using assms(6) by (simp_all only: unat_of_nat_u64)
  have "\<exists>xs. rl_slice ?l (of_nat a) (of_nat (a + length es)) mx out = Some (ErrNone, out @ xs)
    \<and> map Some xs = map (un_lookup (appended es ?u)) [unat (of_nat a :: u64)..<unat (of_nat (a + length es) :: u64)]"
    using ms.slice_in_tail [OF assms(1), of ?l "of_nat a" "of_nat (a + length es)" mx out] assms(2) ok len
    by (simp add: words del: of_nat_add)
  then obtain xs where slice: "rl_slice ?l (of_nat a) (of_nat (a + length es)) mx out = Some (ErrNone, out @ xs)"
    and xs: "map Some xs = map (un_lookup (appended es ?u)) [a..<a + length es]"
    by (auto simp only: words)
  have "map (un_lookup (appended es ?u)) [a..<a + length es] = map Some es"
    using assms(7) un_append_appended(3) [OF u assms(4-6)]
    by (intro nth_equalityI) (auto simp: truncated_with_def)
  with xs have "xs = es" by (simp add: inj_map_eq_map)
  with slice have slice: "rl_slice ?l (of_nat a) (of_nat (a + length es)) mx out = Some (ErrNone, out @ es)"
    by simp
  have next_word: "of_nat (a + length es - 1) + 1 = (of_nat (a + length es) :: u64)"
  proof -
    have "a + length es = Suc (a + length es - 1)" using len by simp
    then show ?thesis by (metis add.commute of_nat_Suc)
  qed
  have "rl_last_index ?l = Some (of_nat (a + length es - 1))"
    using ms.rl_last_index_valid [OF assms(1), of ?l] assms(2) ok by simp
  moreover have "\<not> (of_nat (a + length es - 1) :: u64) < of_nat a"
    using len by (simp only: u64_less_iff words)
  ultimately have "rl_entries ?l (of_nat a) mx out = Some (ErrNone, out @ es)"
    using slice by (simp only: rl_entries_def next_word bind.bind_lunit if_False)
  with slice ok show ?thesis
    using rl_append_vec_appended [OF assms] by (intro exI [of _ ?l]) simp
qed

theorem log_append_reads_back_witness:
  "\<exists>l'. rl_append_vec [entry_at 6 3, entry_at 7 3] sample_log = Some (7, l')
    \<and> rl_entries l' 6 0 [] = Some (ErrNone, [entry_at 6 3, entry_at 7 3])"
proof -
  have "contiguous 6 [entry_at 6 3, entry_at 7 3]" by simp
  moreover have "6 = un_next (rl_unstable sample_log)"
    using log_ok_next [OF sample_log_ok] by simp
  ultimately show ?thesis
    using log_append_reads_back [OF sample_storage_wf sample_log_storage sample_log_ok,
        of 6 "[entry_at 6 3, entry_at 7 3]" 0 "[]"] by auto
qed

section \<open>Slices over storage and tail\<close>

text \<open>
  The entries that \<open>Slice\<close> hands out for \<open>lo \<le> i < hi\<close>: the part below the tail's offset comes
  from the vector of the storage, but from position \<open>base\<close> of it on, wherever \<open>lo\<close> is.
\<close>

definition slice_stored :: "memory_storage \<Rightarrow> unstable \<Rightarrow> nat \<Rightarrow> nat \<Rightarrow> log_entry list" where
  "slice_stored m u lo hi = take (min hi (unat (un_offset u)) - lo) (drop (ms_base m) (ms_ents m))"

definition slice_tail :: "unstable \<Rightarrow> nat \<Rightarrow> nat \<Rightarrow> log_entry list" where
  "slice_tail u lo hi = take (hi - max lo (unat (un_offset u))) (drop (max lo (unat (un_offset u)) - unat (un_offset u)) (un_ents u))"

lemma unat_max_u64: "unat (max x y :: u64) = max (unat x) (unat y)"
  by (simp add: max_def u64_le_iff)

lemma unat_min_u64: "unat (min x y :: u64) = min (unat x) (unat y)"
  by (simp add: min_def u64_le_iff)

text \<open>C36: The result of \<open>Slice\<close> over a well-formed memory storage, on every branch: a reversed range is a
  parameter error, a range that leaves the log is reported as compacted, an empty one adds
  nothing; otherwise the tail's part is exact and complete, but the part that the storage holds
  is read from position \<open>base\<close> of its vector instead of from \<open>lo - base\<close>, and the access is
  undefined when the vector ends before. The size limit has no effect.\<close>

theorem log_slice_outcome:
  assumes "ms_wf m" and "rl_storage l = Some (ms_storage m)" and "log_ok (ms_view m) (rl_unstable l)"
  shows "rl_slice l lo hi mx out =
    (if unat hi < unat lo then Some (ErrParam, out)
     else if unat lo \<le> ms_base m \<or> Suc (log_last (ms_view m) (rl_unstable l)) < unat hi then Some (ErrCompacted, out)
     else if unat lo = unat hi then Some (ErrNone, out)
     else if length (ms_ents m) < ms_base m + (min (unat hi) (unat (un_offset (rl_unstable l))) - unat lo)
       \<and> unat lo < unat (un_offset (rl_unstable l)) then None
     else Some (ErrNone, out @ slice_stored m (rl_unstable l) (unat lo) (unat hi)
                           @ slice_tail (rl_unstable l) (unat lo) (unat hi)))"
proof -
  let ?u = "rl_unstable l" and ?off = "unat (un_offset (rl_unstable l))"
  from assms(3) have u: "un_wf ?u" and off: "ms_base m < ?off" "?off \<le> Suc (ms_last m)"
    by (simp_all add: log_ok_def)
  note bounds = ms.bounds_check_valid [OF assms, of lo hi]
  show ?thesis
  proof (cases "unat lo < unat hi \<and> ms_base m < unat lo \<and> unat hi \<le> Suc (log_last (ms_view m) ?u)")
    case False
    then show ?thesis using bounds by (auto simp: rl_slice_def word_unat_eq_iff)
  next
    case True
    then have ok: "rl_must_check_out_of_bounds l lo hi = Some ErrNone" using bounds by simp
    have ne: "lo \<noteq> hi" using True by auto
    have stored: "so_entries (ms_storage m) lo (min hi (un_offset ?u)) mx =
      (if ms_base m + (min (unat hi) ?off - unat lo) \<le> length (ms_ents m)
       then Some (slice_stored m ?u (unat lo) (unat hi), ErrNone) else None)" if "unat lo < ?off"
      using ms_entries_inside [OF assms(1), of lo "min hi (un_offset ?u)" mx] True that off
      by (simp add: ms_storage_def unat_min_u64 slice_stored_def)
    have tail: "un_slice (max lo (un_offset ?u)) hi [] ?u = Some (slice_tail ?u (unat lo) (unat hi))"
      if "?off < unat hi"
      using un_slice_wf [OF u, of "max lo (un_offset ?u)" hi "[]"] True that log_ok_next [OF assms(3)]
      by (simp add: unat_max_u64 slice_tail_def)
    show ?thesis
      using True ok ne stored tail assms(2)
      by (auto simp: rl_slice_def u64_less_iff slice_stored_def slice_tail_def)
  qed
qed

theorem log_slice_outcome_witness:
  "rl_slice sample_log 4 6 0 [] = Some (ErrNone, [entry_at 4 2, entry_at 5 2])
    \<and> rl_slice sample_log 2 6 0 [] = Some (ErrCompacted, []) \<and> rl_slice sample_log 6 4 0 [] = Some (ErrParam, [])"
proof -
  have tail: "rl_unstable sample_log = new_unstable\<lparr>un_offset := 4, un_ents := [entry_at 4 2, entry_at 5 2]\<rparr>"
    by (simp add: sample_log_def)
  show ?thesis
    using log_slice_outcome [OF sample_storage_wf sample_log_storage sample_log_ok, of 4 6 0 "[]"]
      log_slice_outcome [OF sample_storage_wf sample_log_storage sample_log_ok, of 2 6 0 "[]"]
      log_slice_outcome [OF sample_storage_wf sample_log_storage sample_log_ok, of 6 4 0 "[]"]
    by (simp add: slice_stored_def slice_tail_def) (simp add: tail)
qed

end
