(* ===== verification/Meta_Store.thy ===== *)
theory Meta_Store
  imports Prelude
begin

text \<open>
  The database half of \<^verbatim>\<open>src/src/anraft/raft_log.cpp\<close>: \<open>Open\<close>, \<open>GetCurrentTerm\<close>,
  \<open>SetCurrentTerm\<close>, and the entry and meta functions, whose bodies are empty. The database is
  RocksDB, which is not part of the repository: the open, read and write functions are
  arguments of the definitions, over an arbitrary type \<open>'d\<close> of database contents, and
  \<open>db_reads_back\<close> states the documented behaviour that one theorem relies on. A handle is
  \<^term>\<open>None\<close> when it is null.
\<close>

unbundle bit_operations_syntax

section \<open>Words and their bytes\<close>

text \<open>
  \<open>memcpy\<close> between a \<open>uint64_t\<close> and a buffer, on a little-endian machine; reading needs eight
  bytes.
\<close>

definition bytes_of_u64 :: "u64 \<Rightarrow> bytes" where
  "bytes_of_u64 w = map (\<lambda>i. ucast (drop_bit (8 * i) w)) [0..<8]"

definition u64_of_bytes :: "bytes \<Rightarrow> u64 option" where
  "u64_of_bytes bs =
     (if length bs < 8 then None else Some (foldr (\<lambda>b w. push_bit 8 w OR ucast b) (take 8 bs) 0))"

lemma length_bytes_of_u64 [simp]: "length (bytes_of_u64 w) = 8"
  by (simp add: bytes_of_u64_def)

lemma glue_byte: "push_bit 8 (drop_bit (8 + n) w) OR ucast (ucast (drop_bit n w) :: 8 word) = drop_bit n (w :: u64)"
  by (rule bit_word_eqI) (auto simp: bit_simps add.commute)

lemma glue_bytes_from:
  "n \<le> 8 \<Longrightarrow> foldr (\<lambda>b w. push_bit 8 w OR ucast b) (map (\<lambda>i. ucast (drop_bit (8 * i) w) :: 8 word) [n..<8]) 0
    = drop_bit (8 * n) (w :: u64)"
proof (induction "8 - n" arbitrary: n)
  case 0
  then show ?case by simp
next
  case (Suc k)
  then have "n < 8" by simp
  moreover have "foldr (\<lambda>b w. push_bit 8 w OR ucast b) (map (\<lambda>i. ucast (drop_bit (8 * i) w) :: 8 word) [Suc n..<8]) 0
      = drop_bit (8 + 8 * n) w"
    using Suc by simp
  ultimately show ?case using glue_byte [of "8 * n" w] by (simp add: upt_conv_Cons del: upt_Suc)
qed

lemma u64_of_bytes_of_u64 [simp]: "u64_of_bytes (bytes_of_u64 w) = Some w"
  using glue_bytes_from [of 0 w] by (simp add: u64_of_bytes_def) (simp add: bytes_of_u64_def del: upt_Suc)

section \<open>The database functions\<close>

datatype db_status = DbOk | DbNotFound | DbFailed

text \<open>\<open>kCurrentTerm\<close>.\<close>

definition current_term_key :: string where
  "current_term_key = ''CURRENTTERM''"

definition rl_open :: "(string \<Rightarrow> db_status \<times> 'd) \<Rightarrow> string \<Rightarrow> 'd option \<Rightarrow> bool rv \<times> 'd option" where
  "rl_open db_open db_path h =
     (let (s, d) = db_open db_path in
      if s \<noteq> DbOk then (Returns False, None) else (NoReturn, Some d))"

definition rl_get_current_term :: "('d \<Rightarrow> string \<Rightarrow> db_status \<times> bytes) \<Rightarrow> 'd option \<Rightarrow> u64 option" where
  "rl_get_current_term db_get h = do {
     d \<leftarrow> h;
     let (s, buf) = db_get d current_term_key;
     if s = DbNotFound then Some 0 else u64_of_bytes buf
   }"

definition rl_set_current_term ::
    "('d \<Rightarrow> string \<Rightarrow> bytes \<Rightarrow> db_status \<times> 'd) \<Rightarrow> u64 \<Rightarrow> 'd option \<Rightarrow> 'd option option" where
  "rl_set_current_term db_put current_term h = do {
     d \<leftarrow> h;
     let buf = bytes_of_u64 current_term;
     let (_, d) = db_put d current_term_key buf;
     Some (Some d)
   }"

text \<open>The empty bodies.\<close>

definition rl_read_entry :: "int \<Rightarrow> bytes \<Rightarrow> bool rv \<times> bytes" where
  "rl_read_entry index entry = (NoReturn, entry)"

definition rl_write_entry :: "int \<Rightarrow> bytes \<Rightarrow> bool rv" where
  "rl_write_entry index entry = NoReturn"

definition rl_store_meta :: "string \<Rightarrow> bytes \<Rightarrow> bool rv" where
  "rl_store_meta key val = NoReturn"

definition rl_get_meta :: "string \<Rightarrow> bytes \<Rightarrow> bool rv \<times> bytes" where
  "rl_get_meta key val = (NoReturn, val)"

definition rl_store_log :: "int \<Rightarrow> int \<Rightarrow> bytes \<Rightarrow> bool rv" where
  "rl_store_log trm index log = NoReturn"

definition rl_get_log :: "int \<Rightarrow> int \<Rightarrow> bytes \<Rightarrow> bool rv \<times> bytes" where
  "rl_get_log trm index log = (NoReturn, log)"

section \<open>Properties\<close>

text \<open>What the documentation of a key-value store says of one key: a successful write is read back.\<close>

definition db_reads_back ::
    "('d \<Rightarrow> string \<Rightarrow> db_status \<times> bytes) \<Rightarrow> ('d \<Rightarrow> string \<Rightarrow> bytes \<Rightarrow> db_status \<times> 'd) \<Rightarrow> bool" where
  "db_reads_back db_get db_put \<longleftrightarrow>
     (\<forall>d k v. fst (db_put d k v) = DbOk \<longrightarrow> db_get (snd (db_put d k v)) k = (DbOk, v))"

text \<open>C39: The current term survives a restart: after a write that the database accepted,
  \<open>GetCurrentTerm\<close> returns every 64-bit term exactly as \<open>SetCurrentTerm\<close> was given it.\<close>

theorem stored_term_reads_back:
  assumes "db_reads_back db_get db_put" and "fst (db_put d current_term_key (bytes_of_u64 t)) = DbOk"
  shows "\<exists>h. rl_set_current_term db_put t (Some d) = Some h \<and> rl_get_current_term db_get h = Some t"
proof -
  let ?d = "snd (db_put d current_term_key (bytes_of_u64 t))"
  have "rl_set_current_term db_put t (Some d) = Some (Some ?d)"
    by (simp add: rl_set_current_term_def prod.case_eq_if)
  moreover have "db_get ?d current_term_key = (DbOk, bytes_of_u64 t)"
    using assms by (simp add: db_reads_back_def)
  then have "rl_get_current_term db_get (Some ?d) = Some t"
    by (simp add: rl_get_current_term_def)
  ultimately show ?thesis by blast
qed

text \<open>The witness is a database that is a partial map.\<close>

definition map_get :: "(string \<Rightarrow> bytes option) \<Rightarrow> string \<Rightarrow> db_status \<times> bytes" where
  "map_get d k = (case d k of None \<Rightarrow> (DbNotFound, []) | Some v \<Rightarrow> (DbOk, v))"

definition map_put :: "(string \<Rightarrow> bytes option) \<Rightarrow> string \<Rightarrow> bytes \<Rightarrow> db_status \<times> (string \<Rightarrow> bytes option)" where
  "map_put d k v = (DbOk, d(k := Some v))"

lemma map_reads_back: "db_reads_back map_get map_put"
  by (simp add: db_reads_back_def map_get_def map_put_def)

theorem stored_term_reads_back_witness:
  "\<exists>h. rl_set_current_term map_put 18446744073709551615 (Some (\<lambda>_. None)) = Some h
    \<and> rl_get_current_term map_get h = Some 18446744073709551615"
  by (rule stored_term_reads_back [OF map_reads_back]) (simp add: map_put_def)

end
