(* ===== verification/Anraft_Impl.thy ===== *)
theory Anraft_Impl
  imports Meta_Store Raft_Proto Ord_Map Quorum "HOL-Library.FSet" "HOL-Library.Char_ord" "HOL-Library.List_Lexorder"
begin

text \<open>
  \<^verbatim>\<open>src/src/anraft/anraft_impl.h\<close> and \<^verbatim>\<open>anraft_impl.cpp\<close>, with \<open>SendRequest\<close> and
  \<open>RpcCallBack\<close> of \<^verbatim>\<open>anraft_client.h\<close>: the second, RPC-based consensus object of the
  repository. Its indices and terms are \<open>int64_t\<close>, here \<^typ>\<open>int\<close>, with an undefined result past
  the largest value. What the repository does not hold is an argument: the remote call
  (\<open>rpc\<close>: what a node leaves in the response object), the protobuf parser and size function,
  and the apply callbacks, which the model names by a value and records when they run. The
  vector of follower contexts holds pointers to distinct objects; they are modelled by value.
\<close>

section \<open>State\<close>

record follower_context =
  fc_next_index :: int
  fc_match_index :: int

record anraft_options =
  ao_nodes :: "string list"
  ao_local_addr :: string
  ao_db_path :: string

record ('c, 'd) anraft_impl =
  ai_current_term :: int
  ai_voted_for :: string
  ai_log :: "'d option option"
  ai_commit_index :: int
  ai_last_applied :: int
  ai_followers :: "follower_context list"
  ai_last_log_term :: int
  ai_last_log_index :: int
  ai_votes :: "string fset"
  ai_apply_callbacks :: "(int, 'c) omap"
  ai_role :: role
  ai_leader :: string
  ai_is_stop :: bool
  ai_options :: anraft_options
  ai_stubs :: "(string \<times> bool) list"
  ai_called :: "'c list"

text \<open>
  \<open>ai_log\<close> is the pointer \<open>log_\<close> and, behind it, the database handle. \<open>ai_stubs\<close> is
  \<open>stubs_\<close> of the client, with the truth value of each stub pointer. \<open>ai_called\<close> lists the
  apply callbacks that ran, oldest first.
\<close>

section \<open>Sending a request\<close>

text \<open>
  Without a callback every stub is called synchronously on the same response object, one
  after the other. With a callback the request goes out to every stub, and the answers come
  back through \<open>RpcCallBack\<close>. Neither path reaches a return statement.
\<close>

definition send_request_sync :: "(string \<Rightarrow> 'q \<Rightarrow> 'p \<Rightarrow> 'p) \<Rightarrow> (string \<times> bool) list \<Rightarrow> 'q \<Rightarrow> 'p \<Rightarrow> bool rv \<times> 'p" where
  "send_request_sync rpc stubs request response =
     (NoReturn, fold (\<lambda>x p. if snd x then rpc (fst x) request p else p) stubs response)"

definition send_request_async :: "(string \<times> bool) list \<Rightarrow> 'q \<Rightarrow> bool rv \<times> (string \<times> 'q) list" where
  "send_request_async stubs request = (NoReturn, map (\<lambda>x. (fst x, request)) (filter snd stubs))"

section \<open>Elections\<close>

definition ai_reset_election :: "('c, 'd) anraft_impl \<Rightarrow> ('c, 'd) anraft_impl" where
  "ai_reset_election s = s"

definition ai_election :: "('c, 'd) anraft_impl \<Rightarrow> ((string \<times> vote_request) list \<times> ('c, 'd) anraft_impl) option" where
  "ai_election s =
     (if ai_role s = KLeader then Some ([], s)
      else do {
        t \<leftarrow> int64_inc (ai_current_term s);
        let s = s\<lparr>ai_current_term := t, ai_role := KCandidate, ai_voted_for := ao_local_addr (ai_options s)\<rparr>;
        let request = \<lparr>vq_term = ai_current_term s, vq_candidate_id = ao_local_addr (ai_options s),
                       vq_last_log_index = ai_last_log_index s, vq_last_log_term = ai_last_log_term s\<rparr>;
        let (_, sent) = send_request_async (ai_stubs s) request;
        Some (sent, s)
      })"

text \<open>
  The handler of a vote request runs the closure and returns: it reads nothing and leaves the
  response as the RPC layer made it.
\<close>

definition ai_vote :: "vote_request \<Rightarrow> vote_response \<Rightarrow> ('c, 'd) anraft_impl \<Rightarrow> vote_response \<times> ('c, 'd) anraft_impl" where
  "ai_vote request response s = (response, s)"

definition ai_adopt_term :: "int \<Rightarrow> ('c, 'd) anraft_impl \<Rightarrow> ('c, 'd) anraft_impl" where
  "ai_adopt_term trm s = ai_reset_election (s\<lparr>ai_current_term := trm, ai_voted_for := [], ai_role := KFollower\<rparr>)"

definition ai_election_callback ::
    "vote_response \<Rightarrow> bool \<Rightarrow> int \<Rightarrow> string \<Rightarrow> ('c, 'd) anraft_impl \<Rightarrow> ('c, 'd) anraft_impl" where
  "ai_election_callback response failed error vote_node s =
     (if \<not> failed \<or> error \<noteq> 0 then s
      else
        let trm = vr_term response;
            granted = vr_vote_granted response;
            s = (if ai_current_term s < trm then ai_adopt_term trm s else s)
        in if trm \<noteq> ai_current_term s \<or> \<not> granted \<or> ai_role s = KLeader then s
           else
             let s = s\<lparr>ai_votes := finsert vote_node (ai_votes s)\<rparr>
             in if length (ao_nodes (ai_options s)) div 2 + 1 \<le> fcard (ai_votes s)
                then s\<lparr>ai_role := KLeader, ai_leader := ao_local_addr (ai_options s)\<rparr>
                else s)"

text \<open>\<open>RpcCallBack\<close> logs and hands everything on.\<close>

definition rpc_call_back ::
    "vote_response \<Rightarrow> bool \<Rightarrow> int \<Rightarrow> string \<Rightarrow> ('c, 'd) anraft_impl \<Rightarrow> ('c, 'd) anraft_impl" where
  "rpc_call_back response failed error remote_side s =
     ai_election_callback response failed error remote_side s"

definition ai_check_term :: "int \<Rightarrow> ('c, 'd) anraft_impl \<Rightarrow> bool \<times> ('c, 'd) anraft_impl" where
  "ai_check_term trm s = (if ai_current_term s < trm then (False, ai_adopt_term trm s) else (True, s))"

section \<open>Recovery\<close>

text \<open>\<open>Open\<close> has no return value on success; the stored term is converted to \<open>int64_t\<close>.\<close>

definition ai_recover ::
    "env \<Rightarrow> (string \<Rightarrow> db_status \<times> 'd) \<Rightarrow> ('d \<Rightarrow> string \<Rightarrow> db_status \<times> bytes) \<Rightarrow> string
      \<Rightarrow> ('c, 'd) anraft_impl \<Rightarrow> (bool rv \<times> ('c, 'd) anraft_impl) option" where
  "ai_recover g db_open db_get db_path s =
     (case ai_log s of
        None \<Rightarrow> Some (Returns False, s)
      | Some h \<Rightarrow>
          let (v, h) = rl_open db_open db_path h;
              s = s\<lparr>ai_log := Some h\<rparr>;
              opened = read_bool g v
          in if \<not> opened then Some (Returns False, s)
             else do {
               t \<leftarrow> rl_get_current_term db_get h;
               Some (NoReturn, s\<lparr>ai_current_term := sint t\<rparr>)
             })"


section \<open>Construction\<close>

text \<open>
  The constructor of the client puts one stub per address into the map, in the order of the
  strings; \<open>insert\<close> keeps the stub that is there.
\<close>

definition new_node_client :: "string list \<Rightarrow> (string, bool) omap" where
  "new_node_client nodes = fold (om_touch True) nodes []"

definition new_anraft_options :: anraft_options where
  "new_anraft_options = \<lparr>ao_nodes = [], ao_local_addr = [], ao_db_path = []\<rparr>"

text \<open>
  The constructor of \<open>AnraftImpl\<close>: the options are default-constructed, the client gets their
  empty list of nodes, and neither the integers nor the role (\<open>any_role\<close>) nor the pointer \<open>log_\<close> are set. A log pointer
  that is not null by chance is dereferenced by \<open>Recover\<close>.
\<close>

definition new_anraft_impl ::
    "env \<Rightarrow> (string \<Rightarrow> db_status \<times> 'd) \<Rightarrow> ('d \<Rightarrow> string \<Rightarrow> db_status \<times> bytes) \<Rightarrow> role
      \<Rightarrow> ('c, 'd) anraft_impl option" where
  "new_anraft_impl g db_open db_get any_role = (
     let options = new_anraft_options;
         s = \<lparr>ai_current_term = sint (indet_u64 (sub_call 0 g)), ai_voted_for = [], ai_log = None,
              ai_commit_index = sint (indet_u64 (sub_call 1 g)), ai_last_applied = sint (indet_u64 (sub_call 2 g)),
              ai_followers = [], ai_last_log_term = sint (indet_u64 (sub_call 3 g)),
              ai_last_log_index = sint (indet_u64 (sub_call 4 g)), ai_votes = {||}, ai_apply_callbacks = [],
              ai_role = any_role, ai_leader = [], ai_is_stop = indet_bool (sub_call 5 g),
              ai_options = options, ai_stubs = new_node_client (ao_nodes options), ai_called = []\<rparr>
     in if indet_bool (sub_call 6 g) then None
        else do {
          (_, s) \<leftarrow> ai_recover (sub_call 7 g) db_open db_get (ao_db_path options) s;
          Some s
        })"

section \<open>Replication\<close>

text \<open>
  The loop over the entries to send. The inner \<^term>\<open>None\<close> means that the surrounding function
  returned.
\<close>

primrec ai_collect_entries ::
    "(bytes \<Rightarrow> log_entry option) \<Rightarrow> (append_entries_request \<Rightarrow> int) \<Rightarrow> env \<Rightarrow> int list
      \<Rightarrow> append_entries_request \<times> int \<times> int \<Rightarrow> (append_entries_request \<times> int \<times> int) option option" where
  "ai_collect_entries parse byte_size g [] x = Some (Some x)"
| "ai_collect_entries parse byte_size g (i # is) x =
     (let (v, log) = rl_read_entry i [] in
      if \<not> read_bool (sub_call 0 g) v then Some None
      else case parse log of
        None \<Rightarrow> Some None
      | Some entry \<Rightarrow>
          let req = (fst x)\<lparr>aq_entries := aq_entries (fst x) @ [entry]\<rparr>;
              x = (req, sint (le_index entry), sint (le_term entry))
          in if 1024 * 1024 \<le> byte_size req then Some (Some x)
             else do {
               _ \<leftarrow> int64_inc i;
               ai_collect_entries parse byte_size (sub_call 1 g) is x
             })"

definition ai_build_request ::
    "(bytes \<Rightarrow> log_entry option) \<Rightarrow> (append_entries_request \<Rightarrow> int) \<Rightarrow> env \<Rightarrow> follower_context
      \<Rightarrow> ('c, 'd) anraft_impl \<Rightarrow> (append_entries_request \<times> int \<times> int) option option" where
  "ai_build_request parse byte_size g context s = (
     let req = \<lparr>aq_term = ai_current_term s, aq_leader_id = ai_leader s, aq_prev_log_index = 0,
                aq_prev_log_term = 0, aq_entries = [], aq_leader_commit = ai_commit_index s\<rparr>
     in if fc_match_index context < ai_last_log_index s
        then do {
          h \<leftarrow> ai_log s;
          prev \<leftarrow> int64_dec (fc_next_index context);
          let (v, prev_log) = rl_read_entry prev [];
          if \<not> read_bool (sub_call 0 g) v then Some None
          else case parse prev_log of
            None \<Rightarrow> Some None
          | Some prev_entry \<Rightarrow>
              let req = req\<lparr>aq_prev_log_index := sint (le_index prev_entry),
                            aq_prev_log_term := sint (le_term prev_entry)\<rparr>
              in ai_collect_entries parse byte_size (sub_call 1 g)
                   [fc_next_index context..ai_last_log_index s] (req, 0, - 1)
        }
        else Some (Some (req, 0, - 1)))"

text \<open>The own entry counts as \<open>1LL << 60\<close>, behind every real index.\<close>

definition own_match_index :: int where
  "own_match_index = 2 ^ 60"

primrec ai_match_indices :: "string \<Rightarrow> follower_context list \<Rightarrow> string list \<Rightarrow> int list option" where
  "ai_match_indices addr [] nodes = Some []"
| "ai_match_indices addr (f # fs) nodes =
     (case nodes of
        [] \<Rightarrow> None
      | node # nodes \<Rightarrow> do {
          rest \<leftarrow> ai_match_indices addr fs nodes;
          Some ((if node = addr then own_match_index else fc_match_index f) # rest)
        })"

text \<open>
  The body of \<open>while (last_applied_ < commit_index)\<close>, and the loop. The loop is a partial
  function: that it returns is a lemma, not part of the definition. Nothing in the repository
  registers a callback. A callback is a value that is recorded when it is called; what it would do,
  and whether it returns, is outside the model.
\<close>

definition ai_apply_one :: "('c, 'd) anraft_impl \<Rightarrow> ('c, 'd) anraft_impl" where
  "ai_apply_one s =
     (let s = s\<lparr>ai_last_applied := ai_last_applied s + 1\<rparr>
      in case om_find (ai_apply_callbacks s) (ai_last_applied s) of
           Some callback \<Rightarrow> s\<lparr>ai_apply_callbacks := om_erase (ai_last_applied s) (ai_apply_callbacks s),
                             ai_called := ai_called s @ [callback]\<rparr>
         | None \<Rightarrow> s)"

partial_function (option) ai_apply_loop :: "int \<Rightarrow> ('c, 'd) anraft_impl \<Rightarrow> ('c, 'd) anraft_impl option" where
  "ai_apply_loop commit_index s =
     (if ai_last_applied s < commit_index then ai_apply_loop commit_index (ai_apply_one s) else Some s)"

definition ai_advance_commit :: "('c, 'd) anraft_impl \<Rightarrow> ('c, 'd) anraft_impl option" where
  "ai_advance_commit s = do {
     let nodes = ao_nodes (ai_options s);
     vec_match_index \<leftarrow> ai_match_indices (ao_local_addr (ai_options s)) (ai_followers s) nodes;
     let vec_match_index = sort vec_match_index;
     commit_index \<leftarrow> vec_at vec_match_index (vec_size nodes div 2 - 1);
     if ai_commit_index s < commit_index
     then ai_apply_loop commit_index (s\<lparr>ai_commit_index := commit_index\<rparr>)
     else Some s
   }"

text \<open>The second half of \<open>ReplicateLogToFollower\<close>: what the leader does with the answer.\<close>

definition ai_append_answer ::
    "u64 \<Rightarrow> follower_context \<Rightarrow> append_entries_response \<Rightarrow> int \<Rightarrow> int
      \<Rightarrow> ('c, 'd) anraft_impl \<Rightarrow> ('c, 'd) anraft_impl option" where
  "ai_append_answer k context resp max_index max_term s = (
     let (ok, s) = ai_check_term (ar_term resp) s in
     if \<not> ok then Some s
     else if \<not> ar_success resp
     then Some (if fc_match_index context < fc_next_index context \<and> 1 < fc_next_index context
                then s\<lparr>ai_followers := (ai_followers s)[unat k :=
                       context\<lparr>fc_next_index := fc_next_index context - 1\<rparr>]\<rparr>
                else s)
     else if max_index < 0 \<or> max_term \<noteq> ai_current_term s then Some s
     else ai_advance_commit s)"

definition ai_replicate_log_to_follower ::
    "(string \<Rightarrow> append_entries_request \<Rightarrow> append_entries_response \<Rightarrow> append_entries_response)
      \<Rightarrow> (bytes \<Rightarrow> log_entry option) \<Rightarrow> (append_entries_request \<Rightarrow> int) \<Rightarrow> env \<Rightarrow> u64
      \<Rightarrow> ('c, 'd) anraft_impl \<Rightarrow> ('c, 'd) anraft_impl option" where
  "ai_replicate_log_to_follower rpc parse byte_size g k s = do {
     context \<leftarrow> vec_at (ai_followers s) k;
     built \<leftarrow> ai_build_request parse byte_size (sub_call 0 g) context s;
     case built of
       None \<Rightarrow> Some s
     | Some (req, max_index, max_term) \<Rightarrow>
         let (v, resp) = send_request_sync rpc (ai_stubs s) req \<lparr>ar_term = 0, ar_success = False\<rparr> in
         if \<not> read_bool (sub_call 1 g) v then Some s
         else ai_append_answer k context resp max_index max_term s
   }"

text \<open>
  One round of the endless loop in \<open>ReplicateLog\<close>. The assertion ends the program; a node
  that is not leader waits, which leaves the state to the other threads. The first component
  tells whether the function returned. This is a round that nothing interrupts; the thread
  itself, with its waits, is in \<open>Anraft_Threads\<close>.
\<close>

definition ai_replicate_log_round ::
    "(string \<Rightarrow> append_entries_request \<Rightarrow> append_entries_response \<Rightarrow> append_entries_response)
      \<Rightarrow> (bytes \<Rightarrow> log_entry option) \<Rightarrow> (append_entries_request \<Rightarrow> int) \<Rightarrow> env \<Rightarrow> u64
      \<Rightarrow> ('c, 'd) anraft_impl \<Rightarrow> (bool \<times> ('c, 'd) anraft_impl) option" where
  "ai_replicate_log_round rpc parse byte_size g k s = do {
     follower \<leftarrow> vec_at (ai_followers s) k;
     if \<not> fc_match_index follower \<le> fc_next_index follower then None
     else if ai_is_stop s then Some (True, s)
     else if ai_role s \<noteq> KLeader then Some (False, s)
     else do {
       s \<leftarrow> ai_replicate_log_to_follower rpc parse byte_size g k s;
       Some (False, s)
     }
   }"

end
