(* ===== verification/Anraft_Properties.thy ===== *)
theory Anraft_Properties
  imports Anraft_Impl
begin

text \<open>
  What the RPC-based consensus object of \<open>Anraft_Impl\<close> keeps and what its steps do: terms,
  votes and leadership, the commit rule, the apply loop, recovery.
\<close>

section \<open>The apply loop\<close>

lemma map_filter_append: "List.map_filter f (xs @ ys) = List.map_filter f xs @ List.map_filter f ys"
  by (simp add: List.map_filter_def)

lemma map_filter_agree: "(\<And>x. x \<in> set xs \<Longrightarrow> f x = g x) \<Longrightarrow> List.map_filter f xs = List.map_filter g xs"
  by (induction xs) (auto split: option.split)

lemma ai_apply_one_frame [simp]:
  "ai_current_term (ai_apply_one s) = ai_current_term s"
  "ai_commit_index (ai_apply_one s) = ai_commit_index s"
  "ai_followers (ai_apply_one s) = ai_followers s"
  "ai_votes (ai_apply_one s) = ai_votes s"
  "ai_role (ai_apply_one s) = ai_role s"
  "ai_options (ai_apply_one s) = ai_options s"
  "ai_stubs (ai_apply_one s) = ai_stubs s"
  "ai_last_applied (ai_apply_one s) = ai_last_applied s + 1"
  by (simp_all add: ai_apply_one_def split: option.split)

lemma ai_apply_one_callbacks:
  "om_find (ai_apply_callbacks (ai_apply_one s)) k =
    (if k = ai_last_applied s + 1 then None else om_find (ai_apply_callbacks s) k)"
  "ai_called (ai_apply_one s) = ai_called s
    @ List.map_filter (om_find (ai_apply_callbacks s)) [ai_last_applied s + 1]"
  by (simp_all add: ai_apply_one_def om_find_erase map_filter_simps split: option.split)

text \<open>The loop as a number of rounds: it returns, whatever the callbacks.\<close>

abbreviation ai_apply_rounds :: "nat \<Rightarrow> ('c, 'd) anraft_impl \<Rightarrow> ('c, 'd) anraft_impl" where
  "ai_apply_rounds n \<equiv> (ai_apply_one ^^ n)"

lemma ai_apply_loop_rounds:
  "ai_apply_loop c s = Some (ai_apply_rounds (nat (c - ai_last_applied s)) s)"
proof (induction "nat (c - ai_last_applied s)" arbitrary: s)
  case 0
  then show ?case by (subst ai_apply_loop.simps) simp
next
  case (Suc n)
  then have "n = nat (c - ai_last_applied (ai_apply_one s))" by simp
  note rest = Suc.hyps(1) [OF this, folded this]
  have "ai_last_applied s < c" using Suc.hyps(2) by linarith
  with rest show ?case
    by (subst ai_apply_loop.simps) (simp only: Suc.hyps(2) [symmetric], simp add: funpow_swap1)
qed

lemma ai_apply_rounds_frame [simp]:
  "ai_current_term (ai_apply_rounds n s) = ai_current_term s"
  "ai_commit_index (ai_apply_rounds n s) = ai_commit_index s"
  "ai_followers (ai_apply_rounds n s) = ai_followers s"
  "ai_votes (ai_apply_rounds n s) = ai_votes s"
  "ai_role (ai_apply_rounds n s) = ai_role s"
  "ai_options (ai_apply_rounds n s) = ai_options s"
  "ai_stubs (ai_apply_rounds n s) = ai_stubs s"
  "ai_last_applied (ai_apply_rounds n s) = ai_last_applied s + int n"
  by (induction n) simp_all

lemma ai_apply_rounds_callbacks:
  "om_find (ai_apply_callbacks (ai_apply_rounds n s)) k =
    (if ai_last_applied s < k \<and> k \<le> ai_last_applied s + int n then None else om_find (ai_apply_callbacks s) k)"
  by (induction n) (auto simp: ai_apply_one_callbacks)

lemma ai_apply_rounds_called:
  "ai_called (ai_apply_rounds n s) = ai_called s
    @ List.map_filter (om_find (ai_apply_callbacks s)) [ai_last_applied s + 1..ai_last_applied s + int n]"
proof (induction n)
  case 0
  then show ?case by (simp add: map_filter_simps)
next
  case (Suc n)
  let ?k = "ai_last_applied s + int (Suc n)"
  have range: "[ai_last_applied s + 1..?k] = [ai_last_applied s + 1..ai_last_applied s + int n] @ [?k]"
    by (subst upto_rec2) (simp_all add: algebra_simps)
  have "List.map_filter (om_find (ai_apply_callbacks (ai_apply_rounds n s))) [?k]
      = List.map_filter (om_find (ai_apply_callbacks s)) [?k]"
    by (intro map_filter_agree) (simp add: ai_apply_rounds_callbacks)
  with Suc.IH show ?case
    by (simp add: ai_apply_one_callbacks range map_filter_append add.assoc del: of_nat_Suc) (simp add: add_ac)
qed

section \<open>Matched indices\<close>

definition matched :: "('c, 'd) anraft_impl \<Rightarrow> nat \<Rightarrow> int" where
  "matched s i = (if ao_nodes (ai_options s) ! i = ao_local_addr (ai_options s) then own_match_index
     else fc_match_index (ai_followers s ! i))"

lemma ai_match_indices_nth:
  "ai_match_indices addr fs nodes = Some ms \<Longrightarrow> length fs \<le> length nodes \<and> length ms = length fs
    \<and> (\<forall>i<length fs. ms ! i = (if nodes ! i = addr then own_match_index else fc_match_index (fs ! i)))"
  by (induction fs arbitrary: nodes ms)
    (auto simp: bind_eq_Some_conv nth_Cons split: list.splits nat.splits)

lemma ai_match_indices_map:
  assumes "ai_match_indices (ao_local_addr (ai_options s)) (ai_followers s) (ao_nodes (ai_options s)) = Some ms"
  shows "ms = map (matched s) [0..<length (ai_followers s)]"
  using ai_match_indices_nth [OF assms] by (intro nth_equalityI) (auto simp: matched_def)

lemma ai_advance_commit_cases:
  assumes "ai_advance_commit s = Some s'" and "length (ao_nodes (ai_options s)) = length (ai_followers s)"
    and "length (ai_followers s) < 2147483648"
  shows "2 \<le> length (ai_followers s)"
    and "\<exists>c. c = sort (map (matched s) [0..<length (ai_followers s)]) ! (length (ai_followers s) div 2 - 1)
      \<and> s' = (if ai_commit_index s < c
              then ai_apply_rounds (nat (c - ai_last_applied s)) (s\<lparr>ai_commit_index := c\<rparr>) else s)"
proof -
  let ?n = "length (ai_followers s)"
  let ?k = "vec_size (ao_nodes (ai_options s)) div 2 - 1"
  let ?ms = "map (matched s) [0..<?n]"
  from assms(1) obtain ms c where
    ms: "ai_match_indices (ao_local_addr (ai_options s)) (ai_followers s) (ao_nodes (ai_options s)) = Some ms"
    and c: "vec_at (sort ms) ?k = Some c"
    and s': "s' = (if ai_commit_index s < c
      then ai_apply_rounds (nat (c - ai_last_applied s)) (s\<lparr>ai_commit_index := c\<rparr>) else s)"
    by (auto simp: ai_advance_commit_def ai_apply_loop_rounds bind_eq_Some_conv split: if_splits)
  have ms_eq: "ms = ?ms" using ai_match_indices_map [OF ms] .
  have half: "unat (vec_size (ao_nodes (ai_options s)) div 2) = ?n div 2"
    using assms(2,3) by (simp add: unat_div unat_vec_size)
  have in_range: "unat ?k < ?n" using c ms_eq by (auto simp: vec_at_def split: if_splits)
  show two: "2 \<le> ?n"
  proof (rule ccontr)
    assume "\<not> 2 \<le> ?n"
    then have "vec_size (ao_nodes (ai_options s)) div 2 = 0" using half by (simp add: unat_eq_0 [symmetric])
    moreover have "unat (- 1 :: u64) = 18446744073709551615"
      by (simp add: unsigned_minus_1_eq_mask mask_eq_exp_minus_1)
    ultimately have "unat ?k = 18446744073709551615" by simp
    with in_range assms(3) show False by simp
  qed
  then have "unat ?k = ?n div 2 - 1"
    using half by (subst unat_sub_u64) (auto simp: u64_order)
  with c s' ms_eq show "\<exists>c. c = sort ?ms ! (?n div 2 - 1) \<and> s' = (if ai_commit_index s < c
      then ai_apply_rounds (nat (c - ai_last_applied s)) (s\<lparr>ai_commit_index := c\<rparr>) else s)"
    by (auto simp: vec_at_def split: if_splits)
qed


section \<open>Events and runs\<close>

text \<open>
  What drives the object: its election timer, the answers to its vote requests, and the
  replication thread of a follower.
\<close>

datatype ai_event = AiElection | AiAnswer vote_response bool int string | AiReplicate u64

definition ai_step ::
    "(string \<Rightarrow> append_entries_request \<Rightarrow> append_entries_response \<Rightarrow> append_entries_response)
      \<Rightarrow> (bytes \<Rightarrow> log_entry option) \<Rightarrow> (append_entries_request \<Rightarrow> int) \<Rightarrow> env \<Rightarrow> ai_event
      \<Rightarrow> ('c, 'd) anraft_impl \<Rightarrow> ('c, 'd) anraft_impl option" where
  "ai_step rpc parse byte_size g ev s =
     (case ev of
        AiElection \<Rightarrow> do { (_, s) \<leftarrow> ai_election s; Some s }
      | AiAnswer response failed error node \<Rightarrow> Some (rpc_call_back response failed error node s)
      | AiReplicate k \<Rightarrow> do { (_, s) \<leftarrow> ai_replicate_log_round rpc parse byte_size g k s; Some s })"

definition ai_le :: "('c, 'd) anraft_impl \<Rightarrow> ('c, 'd) anraft_impl \<Rightarrow> bool" where
  "ai_le s s' \<longleftrightarrow> ai_current_term s \<le> ai_current_term s' \<and> ai_commit_index s \<le> ai_commit_index s'
     \<and> ai_last_applied s \<le> ai_last_applied s' \<and> ai_votes s |\<subseteq>| ai_votes s'
     \<and> map fc_match_index (ai_followers s') = map fc_match_index (ai_followers s)
     \<and> ai_options s' = ai_options s \<and> ai_stubs s' = ai_stubs s \<and> (\<exists>cs. ai_called s' = ai_called s @ cs)"

lemma ai_le_refl [simp]: "ai_le s s"
  by (simp add: ai_le_def)

lemma ai_le_trans: "ai_le s t \<Longrightarrow> ai_le t u \<Longrightarrow> ai_le s u"
  by (auto simp: ai_le_def)

lemma ai_adopt_term_le: "ai_current_term s < t \<Longrightarrow> ai_le s (ai_adopt_term t s)"
  by (simp add: ai_le_def ai_adopt_term_def ai_reset_election_def)

lemma ai_check_term_le: "ai_le s (snd (ai_check_term t s))"
  by (simp add: ai_check_term_def ai_adopt_term_le)

lemma ai_election_le: "post (ai_election s) (\<lambda>x. ai_le s (snd x))"
  by (auto simp: ai_election_def ai_le_def int64_inc_def send_request_async_def)

lemma ai_election_callback_le: "ai_le s (ai_election_callback r failed e n s)"
  by (auto simp: ai_election_callback_def ai_le_def ai_adopt_term_def ai_reset_election_def)

lemma ai_apply_rounds_le: "ai_commit_index s < c \<Longrightarrow> ai_le s (ai_apply_rounds n (s\<lparr>ai_commit_index := c\<rparr>))"
  by (simp add: ai_le_def ai_apply_rounds_called)

lemma ai_advance_commit_le: "post (ai_advance_commit s) (ai_le s)"
  by (rule postI) (auto simp: ai_advance_commit_def ai_apply_loop_rounds bind_eq_Some_conv ai_apply_rounds_le split: if_splits)

text \<open>A follower's next index is the only thing that an answered request changes in its context.\<close>

lemma map_match_update:
  "vec_at fs k = Some f \<Longrightarrow> map fc_match_index (fs[unat k := f\<lparr>fc_next_index := i\<rparr>]) = map fc_match_index fs"
  by (auto simp: vec_at_def map_update split: if_splits intro!: list_update_same_conv [THEN iffD2])

lemma ai_check_term_followers: "ai_followers (snd (ai_check_term t s)) = ai_followers s"
  by (simp add: ai_check_term_def ai_adopt_term_def ai_reset_election_def)

lemma ai_append_answer_le:
  assumes "vec_at (ai_followers s) k = Some f"
  shows "post (ai_append_answer k f resp mi mt s) (ai_le s)"
proof -
  let ?t = "snd (ai_check_term (ar_term resp) s)"
  have t: "ai_le s ?t" "ai_followers ?t = ai_followers s"
    by (rule ai_check_term_le, rule ai_check_term_followers)
  have "ai_le s (?t\<lparr>ai_followers := (ai_followers ?t)[unat k := f\<lparr>fc_next_index := i\<rparr>]\<rparr>)" for i
    using t assms by (simp add: ai_le_def map_match_update)
  moreover have "post (ai_advance_commit ?t) (ai_le s)"
    using ai_advance_commit_le by (rule post_mono) (rule ai_le_trans [OF t(1)])
  ultimately show ?thesis
    using t by (simp add: ai_append_answer_def prod.case_eq_if)
qed

lemma ai_replicate_le: "post (ai_replicate_log_to_follower rpc parse bs g k s) (ai_le s)"
proof (cases "vec_at (ai_followers s) k")
  case None
  then show ?thesis by (simp add: ai_replicate_log_to_follower_def)
next
  case (Some f)
  then show ?thesis
    by (auto simp: ai_replicate_log_to_follower_def prod.case_eq_if ai_append_answer_le
        split: option.split intro!: postI [of "ai_build_request _ _ _ _ _"])
qed

lemma ai_step_le: "post (ai_step rpc parse bs g ev s) (ai_le s)"
  by (auto simp: ai_step_def ai_election_le rpc_call_back_def ai_election_callback_le ai_replicate_log_round_def
      ai_replicate_le prod.case_eq_if split: ai_event.split intro!: postI [of "vec_at _ _"])

interpretation ai_run: ordered_machine "ai_step rpc parse byte_size" ai_le for rpc parse byte_size
  by unfold_locales (auto intro: ai_le_trans ai_step_le)

text \<open>
  An answer as brpc documents it: a call has failed exactly when its error code is not 0.
\<close>

definition brpc_answer :: "ai_event \<Rightarrow> bool" where
  "brpc_answer ev = (case ev of AiAnswer r failed error n \<Rightarrow> failed = (error \<noteq> 0) | _ \<Rightarrow> True)"

lemma ai_replicate_not_leader:
  "ai_role s \<noteq> KLeader \<Longrightarrow> post (ai_replicate_log_round rpc parse bs g k s) (\<lambda>x. ai_role (snd x) \<noteq> KLeader)"
  by (auto simp: ai_replicate_log_round_def intro!: postI [of "vec_at _ _"])

lemma ai_step_never_leads:
  assumes "brpc_answer ev" and "ai_role s \<noteq> KLeader"
  shows "post (ai_step rpc parse bs g ev s) (\<lambda>t. ai_role t \<noteq> KLeader)"
  using assms
  by (cases ev)
    (auto simp: ai_step_def prod.case_eq_if brpc_answer_def rpc_call_back_def ai_election_callback_def
      ai_replicate_not_leader ai_election_def intro!: postI [of "int64_inc _"])

interpretation ai_silent: invariant_machine "ai_step rpc parse byte_size" brpc_answer "\<lambda>s. ai_role s \<noteq> KLeader"
  for rpc parse byte_size
  by unfold_locales (rule ai_step_never_leads)


section \<open>A cluster for the witnesses\<close>

definition sample_impl :: "(nat, string \<Rightarrow> bytes option) anraft_impl" where
  "sample_impl = \<lparr>ai_current_term = 3, ai_voted_for = ''a'', ai_log = Some None, ai_commit_index = 2,
     ai_last_applied = 2,
     ai_followers = [\<lparr>fc_next_index = 6, fc_match_index = 0\<rparr>, \<lparr>fc_next_index = 6, fc_match_index = 5\<rparr>,
                     \<lparr>fc_next_index = 5, fc_match_index = 4\<rparr>],
     ai_last_log_term = 3, ai_last_log_index = 5, ai_votes = {|''b''|},
     ai_apply_callbacks = [(3, 30), (4, 40), (5, 50)], ai_role = KFollower, ai_leader = [], ai_is_stop = False,
     ai_options = \<lparr>ao_nodes = [''a'', ''b'', ''c''], ao_local_addr = ''a'', ao_db_path = ''db''\<rparr>,
     ai_stubs = [(''a'', True), (''b'', True), (''c'', True)], ai_called = []\<rparr>"

lemma sample_advance:
  "ai_advance_commit sample_impl = Some (sample_impl\<lparr>ai_commit_index := 4, ai_last_applied := 4,
     ai_apply_callbacks := [(5, 50)], ai_called := [30, 40]\<rparr>)"
proof -
  have pos: "vec_size (ao_nodes (ai_options sample_impl)) div 2 - 1 = 0"
    by (simp add: sample_impl_def vec_size_def)
  have ms: "ai_match_indices (ao_local_addr (ai_options sample_impl)) (ai_followers sample_impl)
      (ao_nodes (ai_options sample_impl)) = Some [own_match_index, 5, 4]"
    by (simp add: sample_impl_def)
  have pick: "vec_at (sort [own_match_index, 5, 4]) 0 = Some 4"
    by (simp add: own_match_index_def)
  have "ai_apply_rounds (Suc (Suc 0)) (sample_impl\<lparr>ai_commit_index := 4\<rparr>) = sample_impl\<lparr>ai_commit_index := 4,
      ai_last_applied := 4, ai_apply_callbacks := [(5, 50)], ai_called := [30, 40]\<rparr>"
    by (simp add: sample_impl_def ai_apply_one_def om_find_def om_erase_def)
  moreover have "nat (4 - ai_last_applied (sample_impl\<lparr>ai_commit_index := 4\<rparr>)) = Suc (Suc 0)"
    by (simp add: sample_impl_def)
  ultimately have "ai_apply_loop 4 (sample_impl\<lparr>ai_commit_index := 4\<rparr>) = Some (sample_impl\<lparr>ai_commit_index := 4,
      ai_last_applied := 4, ai_apply_callbacks := [(5, 50)], ai_called := [30, 40]\<rparr>)"
    by (simp only: ai_apply_loop_rounds)
  moreover have "ai_commit_index sample_impl = 2"
    by (simp add: sample_impl_def)
  ultimately show ?thesis
    unfolding ai_advance_commit_def Let_def pos ms by (simp only: bind.bind_lunit pick) simp
qed

section \<open>Commit and apply\<close>

text \<open>C15: When the replication path advances the commit index, the new index is one that the commit
  rule's quorum of nodes holds, counting the node itself; that quorum is more than half, so that
  any other quorum contains a node which is the leader itself or has matched the new index.\<close>

theorem impl_commit_needs_majority:
  assumes "ai_advance_commit s = Some s'" and "ai_commit_index s' \<noteq> ai_commit_index s"
    and "length (ao_nodes (ai_options s)) = length (ai_followers s)" and "length (ai_followers s) < 2147483648"
  shows "ai_commit_index s < ai_commit_index s'
    \<and> length (ai_followers s) < 2 * position_quorum (length (ai_followers s))
    \<and> position_quorum (length (ai_followers s))
        \<le> count_if (\<lambda>i. ai_commit_index s' \<le> matched s i) [0..<length (ai_followers s)]
    \<and> (\<forall>Q. Q \<subseteq> {..<length (ai_followers s)} \<and> position_quorum (length (ai_followers s)) \<le> card Q \<longrightarrow>
        (\<exists>i\<in>Q. ao_nodes (ai_options s) ! i = ao_local_addr (ai_options s)
              \<or> ai_commit_index s' \<le> fc_match_index (ai_followers s ! i)))"
proof -
  let ?n = "length (ai_followers s)" and ?c = "ai_commit_index s'"
  note two = ai_advance_commit_cases(1) [OF assms(1,3,4)]
  let ?ms = "map (matched s) [0..<?n]"
  from ai_advance_commit_cases(2) [OF assms(1,3,4)] assms(2)
  have c: "?c = sort ?ms ! (?n div 2 - 1)" "ai_commit_index s < ?c" by (auto split: if_splits)
  have ne: "ai_followers s \<noteq> []" using two by auto
  have "?n div 2 - 1 < length ?ms" using two by simp
  from count_ge_sort [OF this] have count: "position_quorum ?n \<le> count_if (\<lambda>x. ?c \<le> x) ?ms"
    by (simp add: c(1) position_quorum_def)
  have "\<exists>i\<in>Q. ?c \<le> matched s i" if "Q \<subseteq> {..<?n}" "position_quorum ?n \<le> card Q" for Q
    by (rule pq.acknowledged_everywhere [of "[0..<?n]"]) (use that count ne in \<open>simp_all add: lessThan_atLeast0\<close>)
  moreover have "ao_nodes (ai_options s) ! i = ao_local_addr (ai_options s) \<or> ?c \<le> fc_match_index (ai_followers s ! i)"
    if "?c \<le> matched s i" for i
    using that by (auto simp: matched_def split: if_splits)
  ultimately have "\<forall>Q. Q \<subseteq> {..<?n} \<and> position_quorum ?n \<le> card Q \<longrightarrow>
      (\<exists>i\<in>Q. ao_nodes (ai_options s) ! i = ao_local_addr (ai_options s) \<or> ?c \<le> fc_match_index (ai_followers s ! i))"
    by meson
  moreover have "count_if (\<lambda>i. ?c \<le> matched s i) [0..<?n] = count_if (\<lambda>x. ?c \<le> x) ?ms"
    by (simp add: count_if_def filter_map comp_def)
  ultimately show ?thesis
    using count c(2) pq.more_than_half [of ?n] ne by simp
qed

theorem impl_commit_needs_majority_witness:
  "\<exists>s'. ai_advance_commit sample_impl = Some s' \<and> ai_commit_index s' = 4
    \<and> position_quorum 3 \<le> count_if (\<lambda>i. 4 \<le> matched sample_impl i) [0..<3]"
proof -
  have sel: "length (ai_followers sample_impl) = 3" "length (ao_nodes (ai_options sample_impl)) = 3"
    "ai_commit_index sample_impl = 2" by (simp_all add: sample_impl_def)
  show ?thesis
    using impl_commit_needs_majority [OF sample_advance] sample_advance by (simp add: sel)
qed

text \<open>C25: Advancing the commit index runs the apply callbacks of exactly the newly committed
  positions, each once and in index order, forgets them, keeps all others, and ends with
  everything committed applied.\<close>

theorem impl_apply_in_order:
  assumes "ai_advance_commit s = Some s'" and "ai_commit_index s' \<noteq> ai_commit_index s"
    and "ai_last_applied s \<le> ai_commit_index s"
    and "length (ao_nodes (ai_options s)) = length (ai_followers s)" and "length (ai_followers s) < 2147483648"
  shows "ai_last_applied s' = ai_commit_index s'
    \<and> ai_called s' = ai_called s
        @ List.map_filter (om_find (ai_apply_callbacks s)) [ai_last_applied s + 1..ai_commit_index s']
    \<and> (\<forall>k. om_find (ai_apply_callbacks s') k =
          (if ai_last_applied s < k \<and> k \<le> ai_commit_index s' then None else om_find (ai_apply_callbacks s) k))"
proof -
  from ai_advance_commit_cases(2) [OF assms(1,4,5)] assms(2) obtain c
    where s': "s' = ai_apply_rounds (nat (c - ai_last_applied s)) (s\<lparr>ai_commit_index := c\<rparr>)"
      and c: "ai_commit_index s < c" by (auto split: if_splits)
  have up: "ai_last_applied s + int (nat (c - ai_last_applied s)) = c" using c assms(3) by simp
  show ?thesis
    using up by (simp add: s' ai_apply_rounds_called ai_apply_rounds_callbacks)
qed

theorem impl_apply_in_order_witness:
  "\<exists>s'. ai_advance_commit sample_impl = Some s' \<and> ai_called s' = [30, 40] \<and> ai_last_applied s' = ai_commit_index s'"
proof -
  have sel: "length (ai_followers sample_impl) = 3" "length (ao_nodes (ai_options sample_impl)) = 3"
    "ai_commit_index sample_impl = 2" "ai_last_applied sample_impl = 2" by (simp_all add: sample_impl_def)
  show ?thesis
    using impl_apply_in_order [OF sample_advance] sample_advance by (simp add: sel)
qed


text \<open>C16: The index that \<open>AnraftImpl\<close> picks, position \<open>n / 2 - 1\<close> of the sorted list, against the
  reference rule, the largest index that a majority of the nodes holds: it never commits beyond
  the reference, it is the reference for an even number of nodes, and for three nodes it is
  the smallest of the indices, so that a single silent node keeps the index from advancing.\<close>

theorem impl_commit_against_reference:
  assumes "ai_advance_commit s = Some s'" and "ai_commit_index s' \<noteq> ai_commit_index s"
    and "length (ao_nodes (ai_options s)) = length (ai_followers s)" and "length (ai_followers s) < 2147483648"
  shows "ai_commit_index s' \<le> majority_index (map (matched s) [0..<length (ai_followers s)])
    \<and> (even (length (ai_followers s)) \<longrightarrow>
        ai_commit_index s' = majority_index (map (matched s) [0..<length (ai_followers s)]))
    \<and> (length (ai_followers s) = 3 \<longrightarrow> (\<forall>i<3. ai_commit_index s' \<le> matched s i))"
proof -
  let ?n = "length (ai_followers s)" and ?c = "ai_commit_index s'"
  let ?ms = "map (matched s) [0..<?n]"
  note two = ai_advance_commit_cases(1) [OF assms(1,3,4)]
  from ai_advance_commit_cases(2) [OF assms(1,3,4)] assms(2)
  have c: "?c = sort ?ms ! (?n div 2 - 1)" by (auto split: if_splits)
  have "?c \<le> matched s i" if "?n = 3" "i < 3" for i
  proof -
    have "matched s i \<in> set (sort ?ms)" using that by simp
    then obtain j where "j < length (sort ?ms)" "sort ?ms ! j = matched s i"
      by (auto simp only: in_set_conv_nth)
    moreover have "?c = sort ?ms ! 0" using c that(1) by simp
    ultimately show ?thesis using sorted_nth_mono [OF sorted_sort, of 0 j ?ms] by simp
  qed
  moreover have "2 \<le> length ?ms" using two by simp
  note majority_index_position [OF this]
  ultimately show ?thesis using c by simp
qed

theorem impl_commit_against_reference_witness:
  "\<exists>s'. ai_advance_commit sample_impl = Some s' \<and> ai_commit_index s' = 4 \<and> 4 \<le> matched sample_impl 1"
proof -
  have sel: "length (ai_followers sample_impl) = 3" "length (ao_nodes (ai_options sample_impl)) = 3"
    "ai_commit_index sample_impl = 2" by (simp_all add: sample_impl_def)
  show ?thesis
    using impl_commit_against_reference [OF sample_advance] sample_advance by (simp add: sel)
qed

text \<open>With fewer than two configured nodes the position that is read, \<open>n / 2 - 1\<close> in 64 bits,
  lies outside the vector, so that a confirmed request ends in an undefined access.\<close>

theorem impl_single_node_undefined:
  assumes "length (ao_nodes (ai_options s)) < 2"
  shows "ai_advance_commit s = None"
proof -
  let ?nodes = "ao_nodes (ai_options s)"
  have "vec_size ?nodes div 2 - 1 = - 1"
    using assms by (cases "?nodes") (auto simp: vec_size_def)
  moreover have "unat (- 1 :: u64) = 18446744073709551615"
    by (simp add: unsigned_minus_1_eq_mask mask_eq_exp_minus_1)
  moreover have "length ms < 2" if "ai_match_indices a fs ?nodes = Some ms" for a fs ms
    using ai_match_indices_nth [OF that] assms by simp
  ultimately show ?thesis
    by (cases "ai_match_indices (ao_local_addr (ai_options s)) (ai_followers s) ?nodes")
      (fastforce simp: ai_advance_commit_def vec_at_def)+
qed

theorem impl_single_node_undefined_witness:
  "ai_advance_commit (sample_impl\<lparr>ai_options := \<lparr>ao_nodes = [''a''], ao_local_addr = ''a'', ao_db_path = ''db''\<rparr>,
     ai_followers := [\<lparr>fc_next_index = 6, fc_match_index = 0\<rparr>]\<rparr>) = None"
  by (rule impl_single_node_undefined) simp

lemma ai_collect_entries_term:
  assumes "parse [] = Some new_log_entry"
  shows "ai_collect_entries parse bs g is x = Some (Some (req, mi, mt)) \<Longrightarrow> mt = 0 \<or> mt = snd (snd x)"
proof (induction "is" arbitrary: g x)
  case Nil
  then show ?case by auto
next
  case (Cons i "is")
  let ?x = "((fst x)\<lparr>aq_entries := aq_entries (fst x) @ [new_log_entry]\<rparr>, 0, 0) :: append_entries_request \<times> int \<times> int"
  from Cons.prems have "(req, mi, mt) = ?x \<or> ai_collect_entries parse bs (sub_call 1 g) is ?x = Some (Some (req, mi, mt))"
    by (auto simp: rl_read_entry_def assms new_log_entry_def bind_eq_Some_conv split: if_splits)
  with Cons.IH [of "sub_call 1 g" ?x] show ?case by auto
qed

lemma ai_build_request_term:
  assumes "parse [] = Some new_log_entry" and "ai_build_request parse bs g f s = Some (Some (req, mi, mt))"
  shows "mt = 0 \<or> mt = - 1"
proof -
  from assms(2) have "mt = - 1 \<or>
    (\<exists>h is x. ai_collect_entries parse bs h is (x, 0, - 1) = Some (Some (req, mi, mt)))"
    by (auto simp: ai_build_request_def rl_read_entry_def assms(1) bind_eq_Some_conv split: if_splits)
  with ai_collect_entries_term [of parse, OF assms(1)] show ?thesis by fastforce
qed

text \<open>The replication path of a node with a positive term never commits anything, if the parser
  turns an empty string into the default entry, as protobuf does: \<open>ReadEntry\<close> has an empty body
  and leaves the string empty, so the last term that was sent is 0, or -1 if nothing was sent,
  and never the current one.\<close>

theorem impl_replication_never_commits:
  assumes "parse [] = Some new_log_entry" and "0 < ai_current_term s"
    and "ai_replicate_log_to_follower rpc parse bs g k s = Some s'"
  shows "ai_commit_index s' = ai_commit_index s \<and> ai_last_applied s' = ai_last_applied s"
proof -
  from assms(3) obtain f built where f: "vec_at (ai_followers s) k = Some f"
    and built: "ai_build_request parse bs (sub_call 0 g) f s = Some built"
    by (auto simp: ai_replicate_log_to_follower_def bind_eq_Some_conv)
  show ?thesis
  proof (cases built)
    case None
    with assms(3) f built show ?thesis by (simp add: ai_replicate_log_to_follower_def)
  next
    case (Some x)
    obtain req mi mt where x: "x = (req, mi, mt)" by (cases x) auto
    have "mt \<le> 0" using ai_build_request_term [of parse, OF assms(1)] built Some x by fastforce
    then have "mt \<noteq> ai_current_term s" using assms(2) by simp
    moreover have "s' = s \<or> (\<exists>resp. ai_append_answer k f resp mi mt s = Some s')"
      using assms(3) f built Some x
      by (auto simp: ai_replicate_log_to_follower_def prod.case_eq_if split: if_splits)
    ultimately show ?thesis
      by (auto simp: ai_append_answer_def ai_check_term_def ai_adopt_term_def ai_reset_election_def split: if_splits)
  qed
qed

theorem impl_replication_never_commits_witness:
  "\<exists>s'. ai_replicate_log_to_follower (\<lambda>n q p. \<lparr>ar_term = 3, ar_success = True\<rparr>) (\<lambda>b. Some new_log_entry) (\<lambda>q. 0)
      (env_const 1) 2 sample_impl = Some s' \<and> ai_commit_index s' = 2"
proof -
  have sel: "ai_current_term sample_impl = 3" "ai_commit_index sample_impl = 2" "ai_log sample_impl = Some None"
    "vec_at (ai_followers sample_impl) 2 = Some \<lparr>fc_next_index = 5, fc_match_index = 4\<rparr>"
    "ai_last_log_index sample_impl = 5" "ai_stubs sample_impl = [(''a'', True), (''b'', True), (''c'', True)]"
    by (simp_all add: sample_impl_def vec_at_def)
  have "\<exists>s'. ai_replicate_log_to_follower (\<lambda>n q p. \<lparr>ar_term = 3, ar_success = True\<rparr>) (\<lambda>b. Some new_log_entry) (\<lambda>q. 0)
      (env_const 1) 2 sample_impl = Some s'"
    by (simp add: ai_replicate_log_to_follower_def sel ai_build_request_def rl_read_entry_def read_bool_def
        send_request_sync_def ai_append_answer_def ai_check_term_def new_log_entry_def int64_inc_def int64_dec_def
        int64_max_def)
  then obtain s' where run: "ai_replicate_log_to_follower (\<lambda>n q p. \<lparr>ar_term = 3, ar_success = True\<rparr>)
      (\<lambda>b. Some new_log_entry) (\<lambda>q. 0) (env_const 1) 2 sample_impl = Some s'" ..
  have "0 < ai_current_term sample_impl" by (simp add: sel)
  from impl_replication_never_commits [of "\<lambda>b. Some new_log_entry", OF refl this run] run sel(2) show ?thesis by auto
qed

section \<open>Terms, votes and leadership\<close>

text \<open>Over any run of elections, answers and replication rounds the term, the commit index and
  the applied index never go down and votes are never taken back. The matched index of a
  follower never changes at all: no path of the code records a successful replication.\<close>

theorem impl_run_monotone:
  assumes "for_each (ai_step rpc parse byte_size) g evs s = Some s'"
  shows "ai_current_term s \<le> ai_current_term s' \<and> ai_commit_index s \<le> ai_commit_index s'
    \<and> ai_last_applied s \<le> ai_last_applied s' \<and> ai_votes s |\<subseteq>| ai_votes s'
    \<and> map fc_match_index (ai_followers s') = map fc_match_index (ai_followers s)"
  using postD [OF ai_run.run_le assms] by (simp add: ai_le_def)

lemma sample_election_run:
  "for_each (ai_step rpc parse byte_size) g [AiElection] sample_impl
    = Some (sample_impl\<lparr>ai_current_term := 4, ai_role := KCandidate, ai_voted_for := ''a''\<rparr>)"
  by (simp add: ai_step_def ai_election_def int64_inc_def int64_max_def sample_impl_def send_request_async_def)

theorem impl_run_monotone_witness:
  "\<exists>s'. for_each (ai_step (\<lambda>n q p. p) (\<lambda>b. None) (\<lambda>q. 0)) (env_const 0) [AiElection] sample_impl = Some s'
    \<and> 3 \<le> ai_current_term s'"
proof -
  let ?s = "sample_impl\<lparr>ai_current_term := 4, ai_role := KCandidate, ai_voted_for := ''a''\<rparr>"
  have run: "for_each (ai_step (\<lambda>n q p. p) (\<lambda>b. None) (\<lambda>q. 0)) (env_const 0) [AiElection] sample_impl = Some ?s"
    by (rule sample_election_run)
  from impl_run_monotone [OF run] have "ai_current_term sample_impl \<le> ai_current_term ?s" by (rule conjunct1)
  moreover have "ai_current_term sample_impl = 3" by (simp add: sample_impl_def)
  ultimately have "3 \<le> ai_current_term ?s" by simp
  with run show ?thesis by blast
qed

text \<open>If the RPC layer reports failures as documented, that is, a call has failed exactly when its
  error code is not 0, no run ever makes a node leader: the guard of \<open>ElectionCallback\<close> returns
  for every successful answer, because it tests \<open>!failed\<close>.\<close>

theorem impl_never_elects:
  assumes "list_all brpc_answer evs" and "ai_role s \<noteq> KLeader"
    and "for_each (ai_step rpc parse byte_size) g evs s = Some s'"
  shows "ai_role s' \<noteq> KLeader"
  using postD [OF ai_silent.run_keeps [OF assms(1,2)] assms(3)] .

theorem impl_never_elects_witness:
  "\<exists>s'. for_each (ai_step (\<lambda>n q p. p) (\<lambda>b. None) (\<lambda>q. 0)) (env_const 0)
      [AiElection, AiAnswer \<lparr>vr_term = 4, vr_vote_granted = True\<rparr> False 0 ''c''] sample_impl = Some s'
    \<and> ai_role s' \<noteq> KLeader"
proof -
  let ?evs = "[AiElection, AiAnswer \<lparr>vr_term = 4, vr_vote_granted = True\<rparr> False 0 ''c'']"
  have ok: "list_all brpc_answer ?evs" "ai_role sample_impl \<noteq> KLeader"
    by (simp_all add: brpc_answer_def sample_impl_def)
  have "\<exists>s'. for_each (ai_step (\<lambda>n q p. p) (\<lambda>b. None) (\<lambda>q. 0)) (env_const 0) ?evs sample_impl = Some s'"
    by (simp add: ai_step_def ai_election_def int64_inc_def int64_max_def sample_impl_def send_request_async_def)
  then obtain s' where run: "for_each (ai_step (\<lambda>n q p. p) (\<lambda>b. None) (\<lambda>q. 0)) (env_const 0) ?evs sample_impl = Some s'" ..
  from impl_never_elects [OF ok run] run show ?thesis by blast
qed

text \<open>An answer that gets past the guard makes a node leader only if it grants the vote in the
  current term and the distinct nodes in the vote set, the answering one included, are more than
  half of the configured ones; it is then leader of the term of that answer.\<close>

theorem impl_leader_needs_majority:
  assumes "ai_election_callback response failed error node s = s'"
    and "ai_role s \<noteq> KLeader" and "ai_role s' = KLeader"
  shows "vr_vote_granted response \<and> vr_term response = ai_current_term s'
    \<and> ai_votes s' = finsert node (ai_votes s) \<and> ai_leader s' = ao_local_addr (ai_options s')
    \<and> majority_of (length (ao_nodes (ai_options s'))) \<le> fcard (ai_votes s')
    \<and> length (ao_nodes (ai_options s')) < 2 * fcard (ai_votes s')"
  using assms
  by (auto simp: ai_election_callback_def majority_of_def ai_adopt_term_def ai_reset_election_def split: if_splits)


lemma sample_wins:
  "ai_election_callback \<lparr>vr_term = 3, vr_vote_granted = True\<rparr> True 0 ''c'' sample_impl
    = sample_impl\<lparr>ai_votes := finsert ''c'' (ai_votes sample_impl), ai_role := KLeader, ai_leader := ''a''\<rparr>"
  by (simp add: ai_election_callback_def sample_impl_def fcard_finsert_disjoint)

theorem impl_leader_needs_majority_witness:
  "majority_of 3 \<le> fcard (finsert ''c'' (ai_votes sample_impl))"
proof -
  have role: "ai_role sample_impl \<noteq> KLeader" and nodes: "length (ao_nodes (ai_options sample_impl)) = 3"
    by (simp_all add: sample_impl_def)
  from impl_leader_needs_majority [OF sample_wins role] nodes show ?thesis by simp
qed

text \<open>The vote set is never emptied between elections: after starting a new election, one single
  vote of the new term makes a node leader if the votes collected in earlier terms were one
  short of a majority.\<close>

theorem impl_counts_stale_votes:
  assumes "ai_election s = Some (sent, s')" and "ai_role s \<noteq> KLeader"
    and "node |\<notin>| ai_votes s" and "fcard (ai_votes s) = length (ao_nodes (ai_options s)) div 2"
  shows "ai_current_term s' = ai_current_term s + 1 \<and> ai_votes s' = ai_votes s
    \<and> ai_role (ai_election_callback \<lparr>vr_term = ai_current_term s', vr_vote_granted = True\<rparr> True 0 node s') = KLeader"
  using assms
  by (auto simp: ai_election_def ai_election_callback_def int64_inc_def send_request_async_def bind_eq_Some_conv
      fcard_finsert_disjoint split: if_splits)

theorem impl_counts_stale_votes_witness:
  "\<exists>sent s'. ai_election sample_impl = Some (sent, s') \<and> ai_current_term s' = 4
    \<and> ai_role (ai_election_callback \<lparr>vr_term = 4, vr_vote_granted = True\<rparr> True 0 ''c'' s') = KLeader"
proof -
  have "\<exists>sent s'. ai_election sample_impl = Some (sent, s')"
    by (simp add: ai_election_def int64_inc_def int64_max_def send_request_async_def) (simp add: sample_impl_def)
  then obtain sent s' where run: "ai_election sample_impl = Some (sent, s')" by blast
  have s: "ai_role sample_impl \<noteq> KLeader" "''c'' |\<notin>| ai_votes sample_impl" "ai_current_term sample_impl = 3"
    "fcard (ai_votes sample_impl) = length (ao_nodes (ai_options sample_impl)) div 2"
    by (simp_all add: sample_impl_def fcard_finsert_disjoint)
  note res = impl_counts_stale_votes [OF run s(1,2,4)]
  from res s(3) have t: "ai_current_term s' = 4" by simp
  have "ai_role (ai_election_callback \<lparr>vr_term = 4, vr_vote_granted = True\<rparr> True 0 ''c'' s') = KLeader"
    using res unfolding t by (elim conjE)
  with run t show ?thesis by blast
qed

section \<open>Recovery\<close>

text \<open>A restart restores the term: after the term was stored and accepted by the database, a node
  that opens the same contents and reads the (unset) result of \<open>Open\<close> as true starts in exactly
  that term, if it fits 63 bits. If the result of \<open>Open\<close> happens to read as false, recovery
  reports a failure although the database is open.\<close>

theorem impl_recovers_term:
  assumes "db_reads_back db_get db_put" and "fst (db_put d current_term_key (bytes_of_u64 t)) = DbOk"
    and "db_open path = (DbOk, snd (db_put d current_term_key (bytes_of_u64 t)))"
    and "ai_log s = Some h" and "uint t < 2 ^ 63"
  shows "if indet_bool g
    then \<exists>s'. ai_recover g db_open db_get path s = Some (NoReturn, s') \<and> ai_current_term s' = uint t
    else \<exists>s'. ai_recover g db_open db_get path s = Some (Returns False, s') \<and> ai_current_term s' = ai_current_term s"
proof -
  let ?d = "snd (db_put d current_term_key (bytes_of_u64 t))"
  have "db_get ?d current_term_key = (DbOk, bytes_of_u64 t)"
    using assms(1,2) by (simp add: db_reads_back_def)
  then have "rl_get_current_term db_get (Some ?d) = Some t" by (simp add: rl_get_current_term_def)
  moreover have "- (2 ^ 63) \<le> uint t" by (rule order_trans [of _ 0]) simp_all
  then have "sint t = uint t" using assms(5) by (simp add: sint_uint signed_take_bit_int_eq_self)
  ultimately show ?thesis
    using assms(3,4) by (simp add: ai_recover_def rl_open_def read_bool_def)
qed

theorem impl_recovers_term_witness:
  "\<exists>s'. ai_recover (env_const 1) (\<lambda>p. (DbOk, snd (map_put (\<lambda>_. None) current_term_key (bytes_of_u64 7))))
      map_get ''db'' sample_impl = Some (NoReturn, s') \<and> ai_current_term s' = 7"
proof -
  have "if indet_bool (env_const 1) then \<exists>s'. ai_recover (env_const 1)
      (\<lambda>p. (DbOk, snd (map_put (\<lambda>_. None) current_term_key (bytes_of_u64 7)))) map_get ''db'' sample_impl
        = Some (NoReturn, s') \<and> ai_current_term s' = uint (7 :: u64)
    else \<exists>s'. ai_recover (env_const 1)
      (\<lambda>p. (DbOk, snd (map_put (\<lambda>_. None) current_term_key (bytes_of_u64 7)))) map_get ''db'' sample_impl
        = Some (Returns False, s') \<and> ai_current_term s' = ai_current_term sample_impl"
    by (rule impl_recovers_term [OF map_reads_back]) (simp_all add: map_put_def sample_impl_def)
  then show ?thesis by simp
qed

end
