(* ===== verification/Anraft_Startup.thy ===== *)
theory Anraft_Startup
  imports Anraft_Properties
begin

text \<open>
  How an \<open>AnraftImpl\<close> and its client come to be, and what follows for every later run: the
  addresses a client can reach, and the requests that an election sends.
\<close>

section \<open>The client\<close>

lemma om_keys_touch: "om_ok m \<Longrightarrow> set (om_keys (om_touch d k m)) = insert k (set (om_keys m))"
  by (auto simp: set_om_keys om_find_touch split: if_splits)

lemma fold_touch:
  assumes "om_ok m"
  shows "om_ok (fold (om_touch d) ks m)" and "set (om_keys (fold (om_touch d) ks m)) = set ks \<union> set (om_keys m)"
  using assms by (induction ks arbitrary: m) (simp_all add: om_ok_touch om_keys_touch)

lemma new_node_client_ok: "om_ok (new_node_client nodes)" "set (om_keys (new_node_client nodes)) = set nodes"
  using fold_touch [of "[]" True nodes] by (simp_all add: new_node_client_def om_ok_def om_keys_def)

lemma new_node_client_keys: "om_keys (new_node_client nodes) = sorted_list_of_set (set nodes)"
  using new_node_client_ok [of nodes]
  by (intro strict_sorted_equal) (simp_all add: om_ok_def sorted_list_of_set.strict_sorted_key_list_of_set)

lemma fold_touch_values: "snd ` set m \<subseteq> {d} \<Longrightarrow> snd ` set (fold (om_touch d) ks m) \<subseteq> {d}"
proof (induction ks arbitrary: m)
  case (Cons k ks)
  have "snd ` set (om_put k d n) \<subseteq> insert d (snd ` set n)" for n
    by (induction n) auto
  from this [of m] Cons.prems have "snd ` set (om_touch d k m) \<subseteq> {d}"
    by (simp add: om_touch_def subset_iff) blast
  from Cons.IH [OF this] show ?case by simp
qed simp

lemma new_node_client_stubs: "filter snd (new_node_client nodes) = new_node_client nodes"
  using fold_touch_values [of "[]" True nodes] by (auto simp: new_node_client_def filter_id_conv)

text \<open>An election of a node whose client was built for a list of addresses raises the term by
  one, and sends the same vote request exactly once to every address of the list, in ascending
  order, however often an address is listed and although it may be the own one; the vote of the
  candidate for itself is not counted.\<close>

theorem impl_election_requests:
  assumes "ai_stubs s = new_node_client nodes" and "ai_role s \<noteq> KLeader" and "ai_current_term s < int64_max"
  shows "\<exists>s'. ai_election s = Some (map (\<lambda>node. (node,
        \<lparr>vq_term = ai_current_term s + 1, vq_candidate_id = ao_local_addr (ai_options s),
         vq_last_log_index = ai_last_log_index s, vq_last_log_term = ai_last_log_term s\<rparr>))
        (sorted_list_of_set (set nodes)), s')
    \<and> ai_role s' = KCandidate \<and> ai_current_term s' = ai_current_term s + 1 \<and> ai_votes s' = ai_votes s"
proof -
  have keys: "map (\<lambda>x. (fst x, q)) (new_node_client nodes)
      = map (\<lambda>node. (node, q)) (sorted_list_of_set (set nodes))" for q :: vote_request
    by (simp add: new_node_client_keys [symmetric] om_keys_def)
  show ?thesis
    using assms by (simp add: ai_election_def int64_inc_def send_request_async_def new_node_client_stubs keys)
qed

lemma sample_client: "ai_stubs sample_impl = new_node_client [''c'', ''a'', ''b'', ''a'']"
  by (simp add: sample_impl_def new_node_client_def om_touch_def om_find_def)

theorem impl_election_requests_witness:
  "\<exists>req s'. ai_election sample_impl
     = Some (map (\<lambda>node. (node, req)) (sorted_list_of_set {''a'', ''b'', ''c''}), s') \<and> ai_current_term s' = 4"
proof -
  have "ai_role sample_impl \<noteq> KLeader" "ai_current_term sample_impl = 3" "{''c'', ''a'', ''b'', ''a''} = {''a'', ''b'', ''c''}"
    by (auto simp: sample_impl_def)
  with impl_election_requests [OF sample_client] show ?thesis
    by (simp add: int64_max_def) blast
qed

section \<open>The constructed object\<close>

lemma new_anraft_impl_fields:
  assumes "new_anraft_impl g db_open db_get any_role = Some s"
  shows "ai_stubs s = [] \<and> ai_followers s = [] \<and> ai_options s = new_anraft_options \<and> ai_log s = None"
  using assms by (auto simp: new_anraft_impl_def ai_recover_def new_node_client_def new_anraft_options_def
      split: if_splits)

text \<open>The object that the constructor builds is cut off from every other node, and no run
  changes that: the client was built before any node was configured, so that after any run an
  election sends no request at all, and a replication step of any follower reads outside the
  empty vector of contexts.\<close>

theorem impl_constructed_is_isolated:
  assumes "new_anraft_impl g db_open db_get any_role = Some s"
    and "for_each (ai_step rpc parse byte_size) g' evs s = Some s'"
  shows "ai_stubs s' = [] \<and> (\<forall>sent s''. ai_election s' = Some (sent, s'') \<longrightarrow> sent = [])
    \<and> ai_replicate_log_round rpc parse byte_size g'' k s' = None"
proof -
  have "ai_le s s'" by (rule postD [OF ai_run.run_le assms(2)])
  with new_anraft_impl_fields [OF assms(1)] have "ai_stubs s' = []" "ai_followers s' = []"
    by (simp_all add: ai_le_def)
  then show ?thesis
    by (auto simp: ai_election_def send_request_async_def ai_replicate_log_round_def bind_eq_Some_conv)
qed

theorem impl_constructed_is_isolated_witness:
  "\<exists>s s'. new_anraft_impl (env_const 0) (\<lambda>p. (DbOk, ())) (\<lambda>d k. (DbOk, [])) KFollower = Some (s :: (nat, unit) anraft_impl)
    \<and> for_each (ai_step (\<lambda>n q p. p) (\<lambda>b. None) (\<lambda>q. 0)) (env_const 0) [AiElection] s = Some s' \<and> ai_stubs s' = []"
proof -
  obtain s :: "(nat, unit) anraft_impl" where
    s: "new_anraft_impl (env_const 0) (\<lambda>p. (DbOk, ())) (\<lambda>d k. (DbOk, [])) KFollower = Some s"
      "ai_role s = KFollower" "ai_current_term s = 0"
    by (simp add: new_anraft_impl_def ai_recover_def new_anraft_options_def)
  then obtain s' where
    s': "for_each (ai_step (\<lambda>n q p. p) (\<lambda>b. None) (\<lambda>q. 0)) (env_const 0) [AiElection] s = Some s'"
    by (simp add: ai_step_def ai_election_def send_request_async_def int64_inc_def int64_max_def)
  from impl_constructed_is_isolated [OF s(1) s', of "env_const 0" 0] s(1) s' show ?thesis by blast
qed

end
