(* ===== verification/Anraft_Threads.thy ===== *)
theory Anraft_Threads
  imports Anraft_Properties
begin

text \<open>
  \<open>ReplicateLog\<close> of \<^verbatim>\<open>anraft_impl.cpp\<close> as a thread: one per follower, interleaved with each
  other, with the election timer and with the answers to vote requests. The lock of
  \<open>ReplicateLogToFollower\<close> is default-constructed and holds no mutex, so that everything may
  happen while a thread waits: at \<open>Wait\<close>, at \<open>TimedWait\<close> (whose time is not set) and during the
  call to the follower. Between two such points a step is taken as one: the
  data races of the unlocked threads inside such a step, and the unset time of \<open>TimedWait\<close> as a value,
  are not modelled, and no theorem here says anything about them.
\<close>

section \<open>The thread\<close>

text \<open>
  Where a thread is: at the top of the endless loop (before the first round or asleep in
  \<open>TimedWait\<close>), in the inner loop \<open>while (role_ != kLeader)\<close>, waiting for the answer to a request
  with the index and term of its last entry, or returned.
\<close>

datatype thread_pc = RtTop | RtWaiting | RtCalling append_entries_request int int | RtReturned

text \<open>The follower of a thread: its argument points to an \<open>int\<close>, or is null.\<close>

definition rt_thread_id :: "int option \<Rightarrow> u64" where
  "rt_thread_id arg = (case arg of None \<Rightarrow> 0 | Some i \<Rightarrow> of_int i)"

definition rt_send ::
    "(bytes \<Rightarrow> log_entry option) \<Rightarrow> (append_entries_request \<Rightarrow> int) \<Rightarrow> env \<Rightarrow> u64
      \<Rightarrow> ('c, 'd) anraft_impl \<Rightarrow> (thread_pc \<times> ('c, 'd) anraft_impl) option" where
  "rt_send parse byte_size g k s = do {
     context \<leftarrow> vec_at (ai_followers s) k;
     built \<leftarrow> ai_build_request parse byte_size (sub_call 0 g) context s;
     case built of
       None \<Rightarrow> Some (RtTop, s)
     | Some (req, max_index, max_term) \<Rightarrow> Some (RtCalling req max_index max_term, s)
   }"

definition rt_answer ::
    "(string \<Rightarrow> append_entries_request \<Rightarrow> append_entries_response \<Rightarrow> append_entries_response)
      \<Rightarrow> env \<Rightarrow> u64 \<Rightarrow> append_entries_request \<Rightarrow> int \<Rightarrow> int
      \<Rightarrow> ('c, 'd) anraft_impl \<Rightarrow> (thread_pc \<times> ('c, 'd) anraft_impl) option" where
  "rt_answer rpc g k req max_index max_term s = (
     let (v, resp) = send_request_sync rpc (ai_stubs s) req \<lparr>ar_term = 0, ar_success = False\<rparr> in
     if \<not> read_bool (sub_call 1 g) v then Some (RtTop, s)
     else do {
       context \<leftarrow> vec_at (ai_followers s) k;
       s \<leftarrow> ai_append_answer k context resp max_index max_term s;
       Some (RtTop, s)
     })"

text \<open>The test of the inner loop, and what follows it.\<close>

definition rt_wake ::
    "(bytes \<Rightarrow> log_entry option) \<Rightarrow> (append_entries_request \<Rightarrow> int) \<Rightarrow> env \<Rightarrow> u64
      \<Rightarrow> ('c, 'd) anraft_impl \<Rightarrow> (thread_pc \<times> ('c, 'd) anraft_impl) option" where
  "rt_wake parse byte_size g k s =
     (if ai_role s \<noteq> KLeader then Some (RtWaiting, s) else rt_send parse byte_size g k s)"

definition rt_step ::
    "(string \<Rightarrow> append_entries_request \<Rightarrow> append_entries_response \<Rightarrow> append_entries_response)
      \<Rightarrow> (bytes \<Rightarrow> log_entry option) \<Rightarrow> (append_entries_request \<Rightarrow> int) \<Rightarrow> env \<Rightarrow> u64 \<Rightarrow> thread_pc
      \<Rightarrow> ('c, 'd) anraft_impl \<Rightarrow> (thread_pc \<times> ('c, 'd) anraft_impl) option" where
  "rt_step rpc parse byte_size g k pc s =
     (case pc of
        RtTop \<Rightarrow> do {
          follower \<leftarrow> vec_at (ai_followers s) k;
          if \<not> fc_match_index follower \<le> fc_next_index follower then None
          else if ai_is_stop s then Some (RtReturned, s)
          else rt_wake parse byte_size g k s
        }
      | RtWaiting \<Rightarrow> rt_wake parse byte_size g k s
      | RtCalling req max_index max_term \<Rightarrow> rt_answer rpc g k req max_index max_term s
      | RtReturned \<Rightarrow> Some (RtReturned, s))"

section \<open>The interleaved system\<close>

text \<open>
  A system is the list of its threads, one per follower, and the object they share. What the
  remote nodes leave in the response is part of the event, since it may differ every time.
\<close>

datatype sys_event =
    SysElection
  | SysAnswer vote_response bool int string
  | SysThread nat "string \<Rightarrow> append_entries_request \<Rightarrow> append_entries_response \<Rightarrow> append_entries_response"

type_synonym ('c, 'd) impl_system = "thread_pc list \<times> ('c, 'd) anraft_impl"

definition sys_step ::
    "(bytes \<Rightarrow> log_entry option) \<Rightarrow> (append_entries_request \<Rightarrow> int) \<Rightarrow> env \<Rightarrow> sys_event
      \<Rightarrow> ('c, 'd) impl_system \<Rightarrow> ('c, 'd) impl_system option" where
  "sys_step parse byte_size g ev x = (
     let (pcs, s) = x in
     case ev of
       SysElection \<Rightarrow> do { (_, s) \<leftarrow> ai_election s; Some (pcs, s) }
     | SysAnswer response failed error node \<Rightarrow> Some (pcs, rpc_call_back response failed error node s)
     | SysThread k rpc \<Rightarrow>
         if k < length pcs then do {
           (pc, s) \<leftarrow> rt_step rpc parse byte_size g (of_nat k) (pcs ! k) s;
           Some (pcs[k := pc], s)
         }
         else Some (pcs, s))"

section \<open>What every thread leaves alone\<close>

text \<open>
  \<open>keeps s s'\<close>: the fields that no operation of the object writes after its construction.
\<close>

definition keeps :: "('c, 'd) anraft_impl \<Rightarrow> ('c, 'd) anraft_impl \<Rightarrow> bool" where
  "keeps s s' \<longleftrightarrow> ai_is_stop s' = ai_is_stop s \<and> ai_log s' = ai_log s
     \<and> ai_last_log_index s' = ai_last_log_index s \<and> ai_last_log_term s' = ai_last_log_term s
     \<and> ai_options s' = ai_options s \<and> ai_stubs s' = ai_stubs s
     \<and> length (ai_followers s') = length (ai_followers s)"

lemma keeps_refl [simp]: "keeps s s"
  by (simp add: keeps_def)

lemma keeps_trans: "keeps s t \<Longrightarrow> keeps t u \<Longrightarrow> keeps s u"
  by (simp add: keeps_def)

lemma ai_adopt_term_keeps [simp]: "keeps s (ai_adopt_term t s)"
  by (simp add: keeps_def ai_adopt_term_def ai_reset_election_def)

lemma ai_check_term_keeps [simp]: "keeps s (snd (ai_check_term t s))"
  by (simp add: ai_check_term_def)

lemma ai_apply_one_keeps: "keeps s (ai_apply_one s)"
  by (simp add: keeps_def ai_apply_one_def split: option.split)

lemma ai_apply_rounds_keeps: "keeps s (ai_apply_rounds n s)"
  by (induction n) (auto intro: keeps_trans ai_apply_one_keeps)

lemma keeps_commit [simp]: "keeps (s\<lparr>ai_commit_index := c\<rparr>) t \<longleftrightarrow> keeps s t"
  by (simp add: keeps_def)

lemma ai_advance_commit_keeps: "post (ai_advance_commit s) (keeps s)"
proof (rule postI)
  fix t
  assume "ai_advance_commit s = Some t"
  then have "t = s \<or> (\<exists>c n. t = ai_apply_rounds n (s\<lparr>ai_commit_index := c\<rparr>))"
    by (auto simp: ai_advance_commit_def ai_apply_loop_rounds bind_eq_Some_conv split: if_splits)
  then show "keeps s t"
    using ai_apply_rounds_keeps [of "s\<lparr>ai_commit_index := _\<rparr>"] by auto
qed

lemma ai_append_answer_keeps: "post (ai_append_answer k f resp mi mt s) (keeps s)"
proof -
  let ?t = "snd (ai_check_term (ar_term resp) s)"
  have t: "keeps s ?t" by simp
  then have "keeps s (?t\<lparr>ai_followers := (ai_followers ?t)[i := h]\<rparr>)" for i h
    by (simp add: keeps_def)
  moreover have "post (ai_advance_commit ?t) (keeps s)"
    using ai_advance_commit_keeps by (rule post_mono) (rule keeps_trans [OF t])
  ultimately show ?thesis
    using t by (simp add: ai_append_answer_def prod.case_eq_if)
qed

lemma ai_election_keeps: "post (ai_election s) (\<lambda>x. keeps s (snd x))"
  by (auto simp: ai_election_def keeps_def int64_inc_def send_request_async_def)

lemma ai_election_callback_keeps: "keeps s (ai_election_callback r failed e n s)"
  by (auto simp: ai_election_callback_def keeps_def ai_adopt_term_def ai_reset_election_def)

text \<open>A send leaves the object as it is; the thread then calls or is back at the top.\<close>

lemma rt_send_same: "post (rt_send parse bs g k s) (\<lambda>x. snd x = s \<and> (fst x = RtTop \<or> (\<exists>req mi mt. fst x = RtCalling req mi mt)))"
  by (auto simp: rt_send_def split: option.split intro!: postI [of "ai_build_request _ _ _ _ _"] postI [of "vec_at _ _"])

lemma rt_wake_same: "post (rt_wake parse bs g k s) (\<lambda>x. snd x = s \<and> fst x \<noteq> RtReturned)"
  using rt_send_same [of parse bs g k s] by (auto simp: rt_wake_def intro: post_mono)

lemma rt_answer_top: "post (rt_answer rpc g k req mi mt s) (\<lambda>x. fst x = RtTop)"
  by (auto simp: rt_answer_def prod.case_eq_if intro!: postI)

lemma rt_step_cases:
  assumes "rt_step rpc parse bs g k pc s = Some (pc', s')"
  shows "s' = s \<or> (\<exists>req mi mt f resp. pc = RtCalling req mi mt \<and> pc' = RtTop \<and> vec_at (ai_followers s) k = Some f
      \<and> ai_append_answer k f resp mi mt s = Some s')"
  using assms
  by (auto simp: rt_step_def rt_answer_def prod.case_eq_if bind_eq_Some_conv
      split: thread_pc.splits if_splits dest!: postD [OF rt_wake_same])

text \<open>Any relation that holds of the answers holds of a step of a thread.\<close>

lemma rt_step_answer:
  assumes "\<And>f resp mi mt. vec_at (ai_followers s) k = Some f \<Longrightarrow> post (ai_append_answer k f resp mi mt s) (R s)" and "R s s"
  shows "post (rt_step rpc parse bs g k pc s) (\<lambda>x. R s (snd x))"
proof (rule postI)
  fix x
  assume "rt_step rpc parse bs g k pc s = Some x"
  from rt_step_cases [of rpc parse bs g k pc s "fst x" "snd x"] this
  consider "snd x = s" | f resp mi mt where "vec_at (ai_followers s) k = Some f"
      "ai_append_answer k f resp mi mt s = Some (snd x)"
    by auto
  then show "R s (snd x)"
  proof cases
    case 2
    from postD [OF assms(1) [OF 2(1)] 2(2)] show ?thesis .
  qed (simp add: assms(2))
qed

lemma sys_step_lift:
  assumes refl: "\<And>s. R s s"
    and election: "\<And>s. post (ai_election s) (\<lambda>x. R s (snd x))"
    and callback: "\<And>s r f e n. R s (ai_election_callback r f e n s)"
    and answer: "\<And>s k f resp mi mt. vec_at (ai_followers s) k = Some f \<Longrightarrow> post (ai_append_answer k f resp mi mt s) (R s)"
  shows "post (sys_step parse bs g ev x) (\<lambda>y. R (snd x) (snd y))"
proof -
  obtain pcs s where x: "x = (pcs, s)" by (cases x)
  have "post (rt_step rpc parse bs g k pc s) (\<lambda>x. R s (snd x))" for rpc k pc
    using answer refl by (rule rt_step_answer)
  then show ?thesis
    using refl election [of s] callback
    by (auto simp: x sys_step_def rpc_call_back_def prod.case_eq_if split: sys_event.split)
qed

lemma sys_step_keeps: "post (sys_step parse bs g ev x) (\<lambda>y. keeps (snd x) (snd y))"
  by (rule sys_step_lift) (simp_all add: ai_election_keeps ai_election_callback_keeps ai_append_answer_keeps)

lemma sys_step_le: "post (sys_step parse bs g ev x) (\<lambda>y. ai_le (snd x) (snd y))"
  by (rule sys_step_lift) (simp_all add: ai_election_le ai_election_callback_le ai_append_answer_le)

interpretation sys_run: ordered_machine "sys_step parse byte_size" "\<lambda>x y. keeps (snd x) (snd y) \<and> ai_le (snd x) (snd y)"
  for parse byte_size
  by unfold_locales (auto intro: keeps_trans ai_le_trans post_conj sys_step_keeps sys_step_le)

section \<open>The threads stay within their contexts\<close>

text \<open>
  The assertion at the top of the loop, and the lower bound that the decrement of
  \<open>next_index\<close> keeps.
\<close>

definition context_ok :: "follower_context \<Rightarrow> bool" where
  "context_ok f \<longleftrightarrow> fc_match_index f \<le> fc_next_index f \<and> 1 \<le> fc_next_index f"

definition contexts_ok :: "('c, 'd) anraft_impl \<Rightarrow> bool" where
  "contexts_ok s \<longleftrightarrow> list_all context_ok (ai_followers s)"

lemma list_all_update: "list_all P xs \<Longrightarrow> P x \<Longrightarrow> list_all P (xs[i := x])"
  using set_update_subset_insert [of xs i x] by (auto simp: list_all_iff)

lemma contexts_at: "contexts_ok s \<Longrightarrow> vec_at (ai_followers s) k = Some f \<Longrightarrow> context_ok f"
  by (auto simp: contexts_ok_def list_all_length vec_at_def split: if_splits)

lemma contexts_same: "ai_followers t = ai_followers s \<Longrightarrow> contexts_ok t = contexts_ok s"
  by (simp add: contexts_ok_def)

lemma ai_advance_commit_followers: "post (ai_advance_commit s) (\<lambda>t. ai_followers t = ai_followers s)"
  by (rule postI) (auto simp: ai_advance_commit_def ai_apply_loop_rounds bind_eq_Some_conv split: if_splits)

lemma ai_append_answer_contexts:
  assumes "vec_at (ai_followers s) k = Some f" and "contexts_ok s"
  shows "post (ai_append_answer k f resp mi mt s) contexts_ok"
proof -
  let ?t = "snd (ai_check_term (ar_term resp) s)"
  have t: "ai_followers ?t = ai_followers s" by (rule ai_check_term_followers)
  have f: "context_ok f" using assms(2,1) by (rule contexts_at)
  have "contexts_ok (?t\<lparr>ai_followers := (ai_followers ?t)[unat k := f\<lparr>fc_next_index := fc_next_index f - 1\<rparr>]\<rparr>)"
    if "fc_match_index f < fc_next_index f" "1 < fc_next_index f"
    using assms(2) that f unfolding t by (simp add: contexts_ok_def list_all_update context_ok_def)
  moreover have "post (ai_advance_commit ?t) contexts_ok"
    using ai_advance_commit_followers by (rule post_mono) (use assms(2) t in \<open>simp add: contexts_ok_def\<close>)
  moreover have "contexts_ok ?t" using assms(2) t by (simp add: contexts_ok_def)
  ultimately show ?thesis by (simp add: ai_append_answer_def prod.case_eq_if)
qed

lemma ai_election_followers: "post (ai_election s) (\<lambda>x. ai_followers (snd x) = ai_followers s)"
  by (auto simp: ai_election_def int64_inc_def send_request_async_def)

lemma ai_election_callback_followers: "ai_followers (ai_election_callback r failed e n s) = ai_followers s"
  by (auto simp: ai_election_callback_def ai_adopt_term_def ai_reset_election_def)

lemma sys_step_contexts: "post (sys_step parse bs g ev x) (\<lambda>y. contexts_ok (snd x) \<longrightarrow> contexts_ok (snd y))"
proof (rule sys_step_lift)
  show "post (ai_election s) (\<lambda>x. contexts_ok s \<longrightarrow> contexts_ok (snd x))" for s :: "('c, 'd) anraft_impl"
    using ai_election_followers by (rule post_mono) (simp add: contexts_ok_def)
  show "post (ai_append_answer k f resp mi mt s) (\<lambda>t. contexts_ok s \<longrightarrow> contexts_ok t)"
    if "vec_at (ai_followers s) k = Some f" for s :: "('c, 'd) anraft_impl" and k f resp mi mt
    using ai_append_answer_contexts [OF that] by (cases "contexts_ok s") simp_all
qed (simp_all add: contexts_ok_def ai_election_callback_followers)

text \<open>
  A system that can run: a thread per follower, a node name per follower, at least two of them,
  an open log, and a last index below the end of \<open>int64_t\<close>.
\<close>

definition sys_ok :: "('c, 'd) impl_system \<Rightarrow> bool" where
  "sys_ok x \<longleftrightarrow> (let (pcs, s) = x; n = length (ai_followers s) in
     length pcs = n \<and> length (ao_nodes (ai_options s)) = n \<and> 2 \<le> n \<and> n < 2147483648
     \<and> ai_log s \<noteq> None \<and> ai_last_log_index s < int64_max \<and> contexts_ok s)"

lemma sys_step_threads: "post (sys_step parse bs g ev x) (\<lambda>y. length (fst y) = length (fst x))"
  by (auto simp: sys_step_def prod.case_eq_if split: sys_event.split intro!: postI)

lemma sys_step_ok: "sys_ok x \<Longrightarrow> post (sys_step parse bs g ev x) sys_ok"
proof -
  assume ok: "sys_ok x"
  have "post (sys_step parse bs g ev x) (\<lambda>y. keeps (snd x) (snd y) \<and> (contexts_ok (snd x) \<longrightarrow> contexts_ok (snd y))
      \<and> length (fst y) = length (fst x))"
    by (intro post_conj sys_step_keeps sys_step_contexts sys_step_threads)
  then show ?thesis
    by (rule post_mono) (use ok in \<open>simp add: sys_ok_def prod.case_eq_if keeps_def\<close>)
qed

interpretation sys_inv: invariant_machine "sys_step parse byte_size" "\<lambda>_. True" sys_ok for parse byte_size
  by unfold_locales (rule sys_step_ok)

section \<open>Which faults a step can meet\<close>

lemma ai_collect_entries_defined:
  "\<forall>i\<in>set is. i < int64_max \<Longrightarrow> ai_collect_entries parse bs g is x \<noteq> None"
  by (induction "is" arbitrary: g x) (auto simp: rl_read_entry_def int64_inc_def split: option.split)

lemma ai_build_request_defined:
  assumes "ai_log s \<noteq> None" and "ai_last_log_index s < int64_max" and "context_ok f"
  shows "ai_build_request parse bs g f s \<noteq> None"
proof -
  have "int64_dec (fc_next_index f) = Some (fc_next_index f - 1)"
    using assms(3) by (simp add: int64_dec_def context_ok_def int64_max_def)
  moreover have "ai_collect_entries parse bs h [fc_next_index f..ai_last_log_index s] x \<noteq> None" for h x
    using assms(2) by (intro ai_collect_entries_defined) simp
  ultimately show ?thesis
    using assms(1) by (auto simp: ai_build_request_def rl_read_entry_def split: option.split)
qed

lemma ai_match_indices_defined: "length fs \<le> length nodes \<Longrightarrow> ai_match_indices addr fs nodes \<noteq> None"
proof (induction fs arbitrary: nodes)
  case Nil
  then show ?case by simp
next
  case (Cons f fs)
  then obtain node rest where nodes: "nodes = node # rest" "length fs \<le> length rest" by (cases nodes) auto
  with Cons.IH [of rest] show ?case by auto
qed

lemma ai_advance_commit_defined:
  assumes "length (ao_nodes (ai_options s)) = length (ai_followers s)" and "2 \<le> length (ai_followers s)"
    and "length (ai_followers s) < 2147483648"
  shows "ai_advance_commit s \<noteq> None"
proof -
  let ?nodes = "ao_nodes (ai_options s)" and ?n = "length (ai_followers s)"
  obtain ms where ms: "ai_match_indices (ao_local_addr (ai_options s)) (ai_followers s) ?nodes = Some ms"
    using ai_match_indices_defined [of "ai_followers s" ?nodes] assms(1) by auto
  have half: "unat (vec_size ?nodes div 2) = ?n div 2"
    using assms by (simp add: unat_div unat_vec_size)
  then have "unat (vec_size ?nodes div 2 - 1) = ?n div 2 - 1"
    using assms(2) by (subst unat_sub_u64) (auto simp: u64_order)
  moreover have "length (sort ms) = ?n" using ai_match_indices_nth [OF ms] by simp
  ultimately have "vec_at (sort ms) (vec_size ?nodes div 2 - 1) \<noteq> None"
    using assms(2) by (simp add: vec_at_def)
  then show ?thesis
    by (auto simp: ai_advance_commit_def ms ai_apply_loop_rounds)
qed

lemma ai_append_answer_defined:
  assumes "sys_ok (pcs, s)"
  shows "ai_append_answer k f resp mi mt s \<noteq> None"
proof -
  let ?t = "snd (ai_check_term (ar_term resp) s)"
  have "keeps s ?t" by simp
  then have "ai_advance_commit ?t \<noteq> None"
    using assms by (intro ai_advance_commit_defined) (simp_all add: keeps_def sys_ok_def)
  then show ?thesis by (simp add: ai_append_answer_def prod.case_eq_if)
qed

lemma rt_send_defined: "sys_ok (pcs, s) \<Longrightarrow> k < length pcs \<Longrightarrow> rt_send parse bs g (of_nat k) s \<noteq> None"
proof -
  assume ok: "sys_ok (pcs, s)" and k: "k < length pcs"
  then have at: "vec_at (ai_followers s) (of_nat k) = Some (ai_followers s ! k)"
    by (simp add: sys_ok_def vec_at_def)
  have f: "context_ok (ai_followers s ! k)"
    using ok by (intro contexts_at [OF _ at]) (simp add: sys_ok_def)
  have "ai_build_request parse bs h (ai_followers s ! k) s \<noteq> None" for h
    by (rule ai_build_request_defined [OF _ _ f]) (use ok in \<open>simp_all add: sys_ok_def\<close>)
  then obtain built where "ai_build_request parse bs (sub_call 0 g) (ai_followers s ! k) s = Some built" by blast
  then show ?thesis by (auto simp: rt_send_def at split: option.split)
qed

lemma rt_step_defined: "sys_ok (pcs, s) \<Longrightarrow> k < length pcs \<Longrightarrow> rt_step rpc parse bs g (of_nat k) pc s \<noteq> None"
proof -
  assume ok: "sys_ok (pcs, s)" and k: "k < length pcs"
  then have at: "vec_at (ai_followers s) (of_nat k) = Some (ai_followers s ! k)"
    by (simp add: sys_ok_def vec_at_def)
  have f: "context_ok (ai_followers s ! k)"
    using ok by (intro contexts_at [OF _ at]) (simp add: sys_ok_def)
  have wake: "rt_wake parse bs g (of_nat k) s \<noteq> None"
    using rt_send_defined [OF ok k] by (simp add: rt_wake_def)
  have "rt_answer rpc g (of_nat k) req mi mt s \<noteq> None" for req mi mt
  proof -
    let ?resp = "snd (send_request_sync rpc (ai_stubs s) req \<lparr>ar_term = 0, ar_success = False\<rparr>)"
    obtain t where "ai_append_answer (of_nat k) (ai_followers s ! k) ?resp mi mt s = Some t"
      using ai_append_answer_defined [OF ok] by fast
    then show ?thesis by (simp add: rt_answer_def at prod.case_eq_if)
  qed
  with wake f show ?thesis
    by (simp add: rt_step_def at context_ok_def split: thread_pc.split)
qed

lemma sys_step_undefined:
  assumes "sys_step parse bs g ev x = None" and "sys_ok x"
  shows "ev = SysElection \<and> ai_role (snd x) \<noteq> KLeader \<and> int64_max \<le> ai_current_term (snd x)"
proof -
  obtain pcs s where x: "x = (pcs, s)" by (cases x)
  have ok: "sys_ok (pcs, s)" using assms(2) by (simp add: x)
  show ?thesis
  proof (cases ev)
    case SysElection
    with assms(1) show ?thesis
      by (auto simp: x sys_step_def ai_election_def int64_inc_def send_request_async_def split: if_splits)
  next
    case (SysThread k rpc)
    then show ?thesis
      using assms(1) rt_step_defined [OF ok, of k rpc parse bs g "pcs ! k"]
      by (auto simp: x sys_step_def prod.case_eq_if split: if_splits)
  qed (use assms(1) in \<open>simp add: x sys_step_def\<close>)
qed

text \<open>Without an election every run of a well-formed system is defined.\<close>

lemma threads_run_defined:
  fixes x :: "('c, 'd) impl_system"
  assumes "sys_ok x" and "list_all (\<lambda>ev. ev \<noteq> SysElection) evs"
  shows "for_each (sys_step parse bs) g evs x \<noteq> None"
proof
  assume undefined: "for_each (sys_step parse bs) g evs x = None"
  have "list_all (\<lambda>_. True) evs" by (simp add: list.pred_True)
  from sys_inv.run_undefined [OF this assms(1) undefined]
  obtain evs1 ev evs2 h and y :: "('c, 'd) impl_system" where "evs = evs1 @ ev # evs2" "sys_ok y"
    "sys_step parse bs h ev y = None" by blast
  with assms(2) sys_step_undefined [of parse bs h ev y] show False by simp
qed

section \<open>A system for the witnesses\<close>

definition sample_threads :: "(nat, string \<Rightarrow> bytes option) impl_system" where
  "sample_threads = ([RtTop, RtTop, RtTop], sample_impl\<lparr>ai_role := KLeader\<rparr>)"

lemma sample_threads_ok: "sys_ok sample_threads"
  by (simp add: sys_ok_def sample_threads_def sample_impl_def contexts_ok_def context_ok_def int64_max_def)

definition refuse :: "string \<Rightarrow> append_entries_request \<Rightarrow> append_entries_response \<Rightarrow> append_entries_response" where
  "refuse node req resp = \<lparr>ar_term = 3, ar_success = False\<rparr>"

lemma send_refused: "stubs = [(a, True)] \<Longrightarrow> send_request_sync refuse stubs req resp = (NoReturn, \<lparr>ar_term = 3, ar_success = False\<rparr>)"
  by (simp add: send_request_sync_def refuse_def)

lemma sample_threads_run:
  "for_each (sys_step (\<lambda>b. None) (\<lambda>q. 0)) (env_const 1) [SysThread 1 refuse, SysThread 1 refuse] sample_threads
    = Some ([RtTop, RtTop, RtTop], sample_impl\<lparr>ai_role := KLeader, ai_followers :=
        [\<lparr>fc_next_index = 6, fc_match_index = 0\<rparr>, \<lparr>fc_next_index = 5, fc_match_index = 5\<rparr>,
         \<lparr>fc_next_index = 5, fc_match_index = 4\<rparr>]\<rparr>)"
  by (simp add: sys_step_def rt_step_def rt_wake_def rt_send_def rt_answer_def ai_build_request_def ai_append_answer_def
      ai_check_term_def send_request_sync_def refuse_def read_bool_def vec_at_def sample_threads_def sample_impl_def)

section \<open>Properties\<close>

text \<open>C18: In every interleaving of the replication threads with each other, with elections and with
  vote answers, the context of every follower keeps \<open>match_index <= next_index\<close> and
  \<open>next_index >= 1\<close>, and no context changes its matched index: the assertion at the top of
  \<open>ReplicateLog\<close> never fails.\<close>

theorem threads_keep_assertion:
  assumes "for_each (sys_step parse byte_size) g evs (pcs, s) = Some (pcs', s')" and "sys_ok (pcs, s)"
  shows "list_all (\<lambda>f. fc_match_index f \<le> fc_next_index f \<and> 1 \<le> fc_next_index f) (ai_followers s')
    \<and> map fc_match_index (ai_followers s') = map fc_match_index (ai_followers s)"
proof -
  have "sys_ok (pcs', s')"
    using postD [OF sys_inv.run_keeps [OF _ assms(2)] assms(1)] by (simp add: list.pred_True)
  moreover have "context_ok = (\<lambda>f. fc_match_index f \<le> fc_next_index f \<and> 1 \<le> fc_next_index f)"
    by (rule ext) (simp add: context_ok_def)
  ultimately have "list_all (\<lambda>f. fc_match_index f \<le> fc_next_index f \<and> 1 \<le> fc_next_index f) (ai_followers s')"
    by (simp add: sys_ok_def contexts_ok_def)
  moreover have "map fc_match_index (ai_followers s') = map fc_match_index (ai_followers s)"
    using postD [OF sys_run.run_le assms(1)] by (simp add: ai_le_def)
  ultimately show ?thesis ..
qed

theorem threads_keep_assertion_witness:
  "map fc_match_index [\<lparr>fc_next_index = 6, fc_match_index = 0\<rparr>, \<lparr>fc_next_index = 5, fc_match_index = 5\<rparr>,
      \<lparr>fc_next_index = 5, fc_match_index = 4\<rparr>] = map fc_match_index (ai_followers sample_impl)"
proof -
  obtain pcs s where x: "sample_threads = (pcs, s)" "s = sample_impl\<lparr>ai_role := KLeader\<rparr>"
    by (simp add: sample_threads_def)
  from threads_keep_assertion [OF sample_threads_run [unfolded x(1)] sample_threads_ok [unfolded x(1)]] x(2)
  show ?thesis by simp
qed

text \<open>C22: In every interleaving of threads, elections and answers the term, the commit index and the
  applied index never go down, votes are never taken back, callbacks that have run are never
  lost, and what the constructor sets up (the stop flag, the log, its last index, the options
  and the stubs) stays.\<close>

theorem threads_run_monotone:
  assumes "for_each (sys_step parse byte_size) g evs (pcs, s) = Some (pcs', s')"
  shows "ai_current_term s \<le> ai_current_term s' \<and> ai_commit_index s \<le> ai_commit_index s'
    \<and> ai_last_applied s \<le> ai_last_applied s' \<and> ai_votes s |\<subseteq>| ai_votes s'
    \<and> (\<exists>cs. ai_called s' = ai_called s @ cs)
    \<and> ai_is_stop s' = ai_is_stop s \<and> ai_log s' = ai_log s \<and> ai_last_log_index s' = ai_last_log_index s
    \<and> ai_options s' = ai_options s \<and> ai_stubs s' = ai_stubs s"
  using postD [OF sys_run.run_le assms] by (simp add: ai_le_def keeps_def)

theorem threads_run_monotone_witness:
  "\<exists>s'. for_each (sys_step (\<lambda>b. None) (\<lambda>q. 0)) (env_const 1) [SysThread 1 refuse, SysThread 1 refuse] sample_threads
      = Some ([RtTop, RtTop, RtTop], s') \<and> 2 \<le> ai_commit_index s'"
proof -
  obtain pcs s where x: "sample_threads = (pcs, s)" "ai_commit_index s = 2"
    by (simp add: sample_threads_def sample_impl_def)
  from threads_run_monotone [OF sample_threads_run [unfolded x(1)]] x(2) sample_threads_run
  show ?thesis by (simp only: x(1)) simp
qed

text \<open>C17: Which faults a well-formed system of threads can meet, where a fault is one that the model
  checks: the assertion of \<open>ReplicateLog\<close>, an access outside a vector, a null pointer, a signed
  overflow. In the interleavings of the model, where a thread gives way only where it waits, it is
  the overflow of the term alone: if a run meets a fault, it has a part without fault after which a
  node that is not leader starts an election in the largest term. In particular no thread ever fails
  its assertion, reads outside a vector or overflows an index. Data races of the threads, which hold
  no lock, the unset time of \<open>TimedWait\<close> and the missing returns of \<open>ReadEntry\<close> and
  \<open>SendRequest\<close> are undefined behaviour by themselves in C++ and are not counted here.\<close>

theorem threads_fault_only_by_term:
  assumes "sys_ok x" and "for_each (sys_step parse byte_size) g evs x = None"
  shows "\<exists>evs1 evs2 y. evs = evs1 @ SysElection # evs2
    \<and> for_each (sys_step parse byte_size) g evs1 x = Some y
    \<and> ai_role (snd y) \<noteq> KLeader \<and> int64_max \<le> ai_current_term (snd y)"
proof -
  obtain evs1 ev evs2 y h where split: "evs = evs1 @ ev # evs2" "for_each (sys_step parse byte_size) g evs1 x = Some y"
    and y: "sys_ok y" "sys_step parse byte_size h ev y = None"
    using sys_inv.run_undefined [of evs x parse byte_size g] assms by (auto simp: list.pred_True)
  from sys_step_undefined [OF y(2,1)] split show ?thesis by blast
qed

theorem threads_fault_only_by_term_witness:
  "\<exists>y. for_each (sys_step (\<lambda>b. None) (\<lambda>q. 0)) (env_const 0) []
      (fst sample_threads, snd sample_threads\<lparr>ai_role := KFollower, ai_current_term := int64_max\<rparr>) = Some y
    \<and> ai_current_term (snd y) = int64_max"
proof -
  let ?x = "(fst sample_threads, snd sample_threads\<lparr>ai_role := KFollower, ai_current_term := int64_max\<rparr>)"
  have ok: "sys_ok ?x"
    using sample_threads_ok by (simp add: sys_ok_def prod.case_eq_if contexts_ok_def)
  have "for_each (sys_step (\<lambda>b. None) (\<lambda>q. 0)) (env_const 0) [SysElection] ?x = None"
    by (simp add: sys_step_def ai_election_def int64_inc_def)
  from threads_fault_only_by_term [OF ok this] show ?thesis
    by (auto simp: append_eq_Cons_conv)
qed

text \<open>The model has the body of the loop twice, as one round (\<open>ai_replicate_log_round\<close>, used by the runs of
  \<open>Anraft_Properties\<close>) and cut at the points where the thread waits; the two agree.\<close>

lemma thread_steps_are_round:
  "ai_replicate_log_round rpc parse byte_size g k s = do {
     (pc, s) \<leftarrow> rt_step rpc parse byte_size g k RtTop s;
     (pc, s) \<leftarrow> (if pc = RtTop \<or> pc = RtWaiting then Some (pc, s) else rt_step rpc parse byte_size g k pc s);
     Some (pc = RtReturned, s)
   }"
proof (cases "vec_at (ai_followers s) k")
  case None
  then show ?thesis by (simp add: ai_replicate_log_round_def rt_step_def)
next
  case (Some f)
  show ?thesis
  proof (cases "ai_build_request parse byte_size (sub_call 0 g) f s")
    case None
    with Some show ?thesis
      by (simp add: ai_replicate_log_round_def rt_step_def rt_wake_def rt_send_def ai_replicate_log_to_follower_def)
  next
    case built: (Some b)
    with Some show ?thesis
      by (auto simp: ai_replicate_log_round_def rt_step_def rt_wake_def rt_send_def rt_answer_def
          ai_replicate_log_to_follower_def prod.case_eq_if split: option.split)
  qed
qed

section \<open>Whether a thread ends\<close>

lemma rt_step_returns:
  assumes "rt_step rpc parse bs g k pc s = Some (RtReturned, s')"
  shows "pc = RtReturned \<or> (pc = RtTop \<and> ai_is_stop s)"
  using assms
  by (auto simp: rt_step_def bind_eq_Some_conv split: thread_pc.splits if_splits
      dest!: postD [OF rt_wake_same] postD [OF rt_answer_top])

lemma sys_step_running:
  assumes "RtReturned \<notin> set (fst x)" and "\<not> ai_is_stop (snd x)"
  shows "post (sys_step parse bs g ev x) (\<lambda>y. RtReturned \<notin> set (fst y) \<and> \<not> ai_is_stop (snd y))"
proof -
  obtain pcs s where x: "x = (pcs, s)" by (cases x)
  have "post (sys_step parse bs g ev x) (\<lambda>y. RtReturned \<notin> set (fst y))"
  proof (rule postI)
    fix y
    assume step: "sys_step parse bs g ev x = Some y"
    show "RtReturned \<notin> set (fst y)"
    proof (cases ev)
      case (SysThread k rpc)
      with step consider "fst y = pcs" | pc s' where "k < length pcs" "fst y = pcs[k := pc]"
          "rt_step rpc parse bs g (of_nat k) (pcs ! k) s = Some (pc, s')"
        by (auto simp: x sys_step_def bind_eq_Some_conv split: if_splits)
      then show ?thesis
      proof cases
        case 2
        moreover have "pcs ! k \<noteq> RtReturned" using 2(1) assms(1) nth_mem [of k pcs] by (metis fst_conv x)
        ultimately have "pc \<noteq> RtReturned"
          using rt_step_returns [of rpc parse bs g "of_nat k" "pcs ! k" s s'] assms(2) by (auto simp: x)
        then show ?thesis
          using assms(1) set_update_subset_insert [of pcs k pc] by (auto simp: x 2(2))
      qed (use assms(1) in \<open>simp add: x\<close>)
    qed (use assms(1) step in \<open>auto simp: x sys_step_def bind_eq_Some_conv\<close>)
  qed
  moreover have "post (sys_step parse bs g ev x) (\<lambda>y. \<not> ai_is_stop (snd y))"
    using sys_step_keeps by (rule post_mono) (use assms(2) in \<open>simp add: keeps_def\<close>)
  ultimately show ?thesis by (rule post_conj)
qed

interpretation sys_running: invariant_machine "sys_step parse byte_size" "\<lambda>_. True"
  "\<lambda>x. RtReturned \<notin> set (fst x) \<and> \<not> ai_is_stop (snd x)" for parse byte_size
  by unfold_locales (use sys_step_running in blast)

text \<open>
  What the RPC layer documents of an answer (a call has failed exactly when its error code is
  not 0) keeps a node from becoming leader; see \<open>ElectionCallback\<close>.
\<close>

definition sys_documented :: "sys_event \<Rightarrow> bool" where
  "sys_documented ev = (case ev of SysAnswer r failed error n \<Rightarrow> failed = (error \<noteq> 0) | _ \<Rightarrow> True)"

text \<open>No leader, and no thread that waits for an answer.\<close>

definition sys_idle :: "('c, 'd) impl_system \<Rightarrow> bool" where
  "sys_idle x \<longleftrightarrow> ai_role (snd x) \<noteq> KLeader \<and> (\<forall>pc\<in>set (fst x). \<forall>req mi mt. pc \<noteq> RtCalling req mi mt)"

lemma ai_election_callback_documented: "failed = (e \<noteq> 0) \<Longrightarrow> ai_election_callback r failed e n s = s"
  by (simp add: ai_election_callback_def)

lemma rt_step_idle:
  assumes "rt_step rpc parse bs g k pc s = Some (pc', s')" and "ai_role s \<noteq> KLeader" and "\<forall>req mi mt. pc \<noteq> RtCalling req mi mt"
  shows "s' = s \<and> (\<forall>req mi mt. pc' \<noteq> RtCalling req mi mt) \<and> (pc = RtWaiting \<longrightarrow> pc' = RtWaiting)"
  using assms by (auto simp: rt_step_def rt_wake_def bind_eq_Some_conv split: thread_pc.splits if_splits)

text \<open>An event of an idle system: at most the term, the role and the vote of an election change.\<close>

definition idle_le :: "('c, 'd) impl_system \<Rightarrow> ('c, 'd) impl_system \<Rightarrow> bool" where
  "idle_le x y \<longleftrightarrow> (\<exists>t r v. snd y = (snd x)\<lparr>ai_current_term := t, ai_role := r, ai_voted_for := v\<rparr>
     \<and> ai_current_term (snd x) \<le> t) \<and> length (fst y) = length (fst x)
     \<and> (\<forall>k<length (fst x). fst x ! k = RtWaiting \<longrightarrow> fst y ! k = RtWaiting)"

lemma idle_same: "length pcs' = length pcs \<Longrightarrow> (\<And>k. k < length pcs \<Longrightarrow> pcs ! k = RtWaiting \<Longrightarrow> pcs' ! k = RtWaiting)
    \<Longrightarrow> idle_le (pcs, s) (pcs', s)"
  unfolding idle_le_def
  by (intro conjI exI [of _ "ai_current_term s"] exI [of _ "ai_role s"] exI [of _ "ai_voted_for s"]) simp_all

lemma idle_trans:
  assumes "idle_le x y" and "idle_le y z"
  shows "idle_le x z"
proof -
  from assms(1) obtain t r v where y: "snd y = (snd x)\<lparr>ai_current_term := t, ai_role := r, ai_voted_for := v\<rparr>"
    "ai_current_term (snd x) \<le> t" by (auto simp: idle_le_def)
  from assms(2) obtain t' r' v' where z: "snd z = (snd y)\<lparr>ai_current_term := t', ai_role := r', ai_voted_for := v'\<rparr>"
    "ai_current_term (snd y) \<le> t'" by (auto simp: idle_le_def)
  from y z have "snd z = (snd x)\<lparr>ai_current_term := t', ai_role := r', ai_voted_for := v'\<rparr>" "ai_current_term (snd x) \<le> t'"
    by simp_all
  then have "\<exists>t r v. snd z = (snd x)\<lparr>ai_current_term := t, ai_role := r, ai_voted_for := v\<rparr> \<and> ai_current_term (snd x) \<le> t"
    by blast
  with assms show ?thesis by (simp add: idle_le_def)
qed

lemma idle_election:
  assumes "ai_election s = Some (sent, s')"
  shows "idle_le (pcs, s) (pcs, s') \<and> (ai_role s \<noteq> KLeader \<longrightarrow> ai_role s' \<noteq> KLeader)"
proof (cases "ai_role s = KLeader")
  case True
  with assms show ?thesis by (simp add: ai_election_def idle_same)
next
  case False
  with assms have s': "s' = s\<lparr>ai_current_term := ai_current_term s + 1, ai_role := KCandidate,
      ai_voted_for := ao_local_addr (ai_options s)\<rparr>"
    by (auto simp: ai_election_def int64_inc_def send_request_async_def split: if_splits)
  then have "\<exists>t r v. s' = s\<lparr>ai_current_term := t, ai_role := r, ai_voted_for := v\<rparr> \<and> ai_current_term s \<le> t"
    by (intro exI conjI, assumption) simp
  with s' show ?thesis by (simp add: idle_le_def)
qed

lemma sys_step_idle:
  assumes "sys_documented ev" and "sys_idle x"
  shows "post (sys_step parse bs g ev x) (\<lambda>y. sys_idle y \<and> idle_le x y)"
proof (rule postI)
  obtain pcs s where x: "x = (pcs, s)" by (cases x)
  fix y
  assume step: "sys_step parse bs g ev x = Some y"
  show "sys_idle y \<and> idle_le x y"
  proof (cases ev)
    case SysElection
    with step obtain sent s' where "ai_election s = Some (sent, s')" "y = (pcs, s')"
      by (auto simp: x sys_step_def bind_eq_Some_conv)
    with assms(2) idle_election [of s sent s' pcs] show ?thesis by (simp add: sys_idle_def x)
  next
    case (SysAnswer r failed e n)
    with step assms(1) have "y = x"
      by (simp add: x sys_step_def rpc_call_back_def sys_documented_def ai_election_callback_documented)
    with assms(2) show ?thesis by (simp add: x idle_same)
  next
    case (SysThread k rpc)
    with step consider "y = x" | pc s' where "k < length pcs" "y = (pcs[k := pc], s')"
        "rt_step rpc parse bs g (of_nat k) (pcs ! k) s = Some (pc, s')"
      by (auto simp: x sys_step_def bind_eq_Some_conv split: if_splits)
    then show ?thesis
    proof cases
      case 1
      with assms(2) show ?thesis by (simp add: x idle_same)
    next
      case 2
      have "ai_role s \<noteq> KLeader" "\<forall>req mi mt. pcs ! k \<noteq> RtCalling req mi mt"
        using assms(2) 2(1) by (auto simp: sys_idle_def x)
      from rt_step_idle [OF 2(3) this] have pc: "s' = s" "\<forall>req mi mt. pc \<noteq> RtCalling req mi mt"
        "pcs ! k = RtWaiting \<longrightarrow> pc = RtWaiting" by auto
      have "idle_le (pcs, s) (pcs[k := pc], s)"
        by (rule idle_same) (use pc(3) 2(1) in \<open>auto simp: nth_list_update\<close>)
      moreover have "sys_idle (pcs[k := pc], s)"
        using assms(2) pc(2) list_all_update [of "\<lambda>pc. \<forall>req mi mt. pc \<noteq> RtCalling req mi mt" pcs pc k]
        by (simp add: sys_idle_def x list_all_iff)
      ultimately show ?thesis by (simp add: 2(2) pc(1) x)
    qed
  qed
qed

interpretation sys_idle: invariant_machine "sys_step parse byte_size" sys_documented "\<lambda>y. sys_idle y \<and> idle_le x y"
  for parse byte_size x
  by unfold_locales (auto intro: idle_trans post_mono [OF sys_step_idle])

lemma idle_refl: "idle_le x x"
  by (cases x) (simp add: idle_same)

text \<open>No interleaving makes a replication thread return, unless \<open>is_stop_\<close> is set from the
  beginning: nothing in the code sets it, and a thread that is in the endless loop stays there.\<close>

theorem threads_never_return:
  assumes "for_each (sys_step parse byte_size) g evs (pcs, s) = Some (pcs', s')"
    and "RtReturned \<notin> set pcs" and "\<not> ai_is_stop s"
  shows "RtReturned \<notin> set pcs' \<and> \<not> ai_is_stop s'"
  using postD [OF sys_running.run_keeps [of evs "(pcs, s)"] assms(1)] assms(2,3) by (simp add: list.pred_True)

theorem threads_never_return_witness:
  "RtReturned \<notin> set [RtTop, RtTop, RtTop] \<and> \<not> ai_is_stop sample_impl"
proof -
  obtain pcs s where x: "sample_threads = (pcs, s)" "pcs = [RtTop, RtTop, RtTop]" "s = sample_impl\<lparr>ai_role := KLeader\<rparr>"
    by (simp add: sample_threads_def)
  have "RtReturned \<notin> set pcs" "\<not> ai_is_stop s" by (simp_all add: x(2,3) sample_impl_def)
  from threads_never_return [OF sample_threads_run [unfolded x(1)] this] show ?thesis by simp
qed

text \<open>C24: If the RPC layer reports failures as documented, a system without a leader and without a
  request under way stays so in every interleaving: elections change the term, the role and the
  vote, and nothing else changes. A thread that waits to become leader waits on, also when
  \<open>is_stop_\<close> is set: the inner loop never looks at it.\<close>

theorem threads_wait_for_ever:
  assumes "for_each (sys_step parse byte_size) g evs (pcs, s) = Some (pcs', s')"
    and "list_all sys_documented evs" and "ai_role s \<noteq> KLeader"
    and "\<forall>pc\<in>set pcs. pc = RtTop \<or> pc = RtWaiting \<or> pc = RtReturned"
  shows "ai_role s' \<noteq> KLeader \<and> ai_current_term s \<le> ai_current_term s'
    \<and> s' = s\<lparr>ai_current_term := ai_current_term s', ai_role := ai_role s', ai_voted_for := ai_voted_for s'\<rparr>
    \<and> (\<forall>k<length pcs. pcs ! k = RtWaiting \<longrightarrow> pcs' ! k = RtWaiting)"
proof -
  have "sys_idle (pcs, s)" using assms(3,4) by (auto simp: sys_idle_def)
  then have "sys_idle (pcs', s') \<and> idle_le (pcs, s) (pcs', s')"
    using postD [OF sys_idle.run_keeps [OF assms(2)] assms(1), of "(pcs, s)"] by (simp add: idle_refl)
  then show ?thesis by (auto simp: sys_idle_def idle_le_def)
qed

lemma sample_waiting_run:
  "for_each (sys_step (\<lambda>b. None) (\<lambda>q. 0)) (env_const 0) [SysElection, SysThread 1 refuse]
      ([RtTop, RtWaiting], sample_impl\<lparr>ai_is_stop := True\<rparr>)
    = Some ([RtTop, RtWaiting], sample_impl\<lparr>ai_is_stop := True, ai_current_term := 4, ai_role := KCandidate\<rparr>)"
  by (simp add: sys_step_def rt_step_def rt_wake_def ai_election_def int64_inc_def int64_max_def
      send_request_async_def sample_impl_def)

theorem threads_wait_for_ever_witness:
  "[RtTop, RtWaiting] ! 1 = RtWaiting \<and> ai_current_term sample_impl \<le> 4"
proof -
  have ok: "list_all sys_documented [SysElection, SysThread 1 refuse]" by (simp add: sys_documented_def)
  have role: "ai_role (sample_impl\<lparr>ai_is_stop := True\<rparr>) \<noteq> KLeader" by (simp add: sample_impl_def)
  from threads_wait_for_ever [OF sample_waiting_run ok role] show ?thesis by simp
qed

text \<open>A thread that nobody interrupts, over the answers of the remote nodes: its run never ends.\<close>

coinductive rt_forever ::
    "(bytes \<Rightarrow> log_entry option) \<Rightarrow> (append_entries_request \<Rightarrow> int) \<Rightarrow> u64 \<Rightarrow> thread_pc \<Rightarrow> ('c, 'd) anraft_impl \<Rightarrow> bool"
  for parse byte_size k where
  step: "(\<And>g rpc. \<exists>pc' s'. rt_step rpc parse byte_size g k pc s = Some (pc', s') \<and> pc' \<noteq> RtReturned
      \<and> rt_forever parse byte_size k pc' s') \<Longrightarrow> rt_forever parse byte_size k pc s"

lemma rt_step_system:
  assumes "sys_ok (pcs, s)" and "k < length pcs" and "rt_step rpc parse bs g (of_nat k) pc s = Some (pc', s')"
  shows "sys_ok (pcs, s')"
proof -
  have "post (rt_step rpc parse bs g (of_nat k) pc s) (\<lambda>x. keeps s (snd x))"
    by (rule rt_step_answer) (simp_all add: ai_append_answer_keeps)
  moreover have "post (rt_step rpc parse bs g (of_nat k) pc s) (\<lambda>x. contexts_ok (snd x))"
    by (rule rt_step_answer [of s _ "\<lambda>_. contexts_ok"]) (use assms(1) in \<open>simp_all add: sys_ok_def ai_append_answer_contexts\<close>)
  ultimately show ?thesis
    using assms(1,3) by (simp add: sys_ok_def keeps_def)
qed

text \<open>C23: The endless loop of \<open>ReplicateLog\<close> is endless: on a well-formed object that is not stopped,
  every step of a thread is defined and leads to another one, for every answer of the remote
  nodes and every value the code does not determine; the function neither returns nor fails.\<close>

theorem replicate_log_never_ends:
  assumes "sys_ok (pcs, s)" and "k < length pcs" and "\<not> ai_is_stop s" and "pc \<noteq> RtReturned"
  shows "rt_forever parse byte_size (of_nat k) pc s"
  using assms
proof (coinduction arbitrary: s pc)
  case (rt_forever s pc)
  have "\<exists>pc' s'. rt_step rpc parse byte_size g (of_nat k) pc s = Some (pc', s') \<and> pc' \<noteq> RtReturned
      \<and> sys_ok (pcs, s') \<and> \<not> ai_is_stop s'" for g rpc
  proof -
    obtain pc' s' where step: "rt_step rpc parse byte_size g (of_nat k) pc s = Some (pc', s')"
      using rt_step_defined [OF rt_forever(1,2)] by fast
    have "pc' \<noteq> RtReturned"
      using rt_step_returns [of rpc parse byte_size g "of_nat k" pc s s'] step rt_forever(3,4) by auto
    moreover have "post (rt_step rpc parse byte_size g (of_nat k) pc s) (\<lambda>x. keeps s (snd x))"
      by (rule rt_step_answer) (simp_all add: ai_append_answer_keeps)
    ultimately show ?thesis
      using step rt_step_system [OF rt_forever(1,2) step] rt_forever(3) by (simp add: keeps_def)
  qed
  with rt_forever(2) show ?case by simp blast
qed

theorem replicate_log_never_ends_witness:
  "rt_forever (\<lambda>b. None) (\<lambda>q. 0) 2 RtTop (snd sample_threads)"
proof -
  have "rt_forever (\<lambda>b. None) (\<lambda>q. 0) (of_nat 2) RtTop (snd sample_threads)"
    by (rule replicate_log_never_ends [of "fst sample_threads"])
      (use sample_threads_ok in \<open>simp_all add: sample_threads_def sample_impl_def\<close>)
  then show ?thesis by simp
qed

section \<open>Interleaved replication never commits\<close>

text \<open>
  Nothing has been committed, applied or called since \<open>s\<close>, the term is positive, and every
  request under way carries a last term that is not.
\<close>

definition uncommitted :: "('c, 'd) anraft_impl \<Rightarrow> ('c, 'd) impl_system \<Rightarrow> bool" where
  "uncommitted s x \<longleftrightarrow> ai_commit_index (snd x) = ai_commit_index s \<and> ai_last_applied (snd x) = ai_last_applied s
     \<and> ai_called (snd x) = ai_called s \<and> 0 < ai_current_term (snd x)
     \<and> (\<forall>pc\<in>set (fst x). \<forall>req mi mt. pc = RtCalling req mi mt \<longrightarrow> mt \<le> 0)"

lemma rt_send_term:
  assumes "parse [] = Some new_log_entry"
  shows "post (rt_send parse bs g k s) (\<lambda>x. \<forall>req mi mt. fst x = RtCalling req mi mt \<longrightarrow> mt \<le> 0)"
  by (rule postI) (auto simp: rt_send_def bind_eq_Some_conv split: option.splits
      dest!: ai_build_request_term [of parse, OF assms])

lemma rt_step_term:
  assumes "parse [] = Some new_log_entry" and "rt_step rpc parse bs g k pc s = Some (pc', s')"
  shows "\<forall>req mi mt. pc' = RtCalling req mi mt \<longrightarrow> mt \<le> 0"
  using assms(2) postD [OF rt_send_term [of parse, OF assms(1)]]
  by (fastforce simp: rt_step_def rt_wake_def bind_eq_Some_conv split: thread_pc.splits if_splits
      dest!: postD [OF rt_answer_top])

lemma ai_append_answer_old_term:
  assumes "ai_append_answer k f resp mi mt s = Some s'" and "mt \<le> 0" and "0 < ai_current_term s"
  shows "ai_commit_index s' = ai_commit_index s \<and> ai_last_applied s' = ai_last_applied s \<and> ai_called s' = ai_called s"
  using assms
  by (auto simp: ai_append_answer_def ai_check_term_def ai_adopt_term_def ai_reset_election_def split: if_splits)

lemma sys_step_uncommitted:
  assumes "parse [] = Some new_log_entry" and "uncommitted c x"
  shows "post (sys_step parse bs g ev x) (uncommitted c)"
proof (rule postI)
  obtain pcs s where x: "x = (pcs, s)" by (cases x)
  fix y
  assume step: "sys_step parse bs g ev x = Some y"
  have "ai_current_term s \<le> ai_current_term (snd y)"
    using postD [OF sys_step_le step] by (simp add: x ai_le_def)
  then have pos: "0 < ai_current_term (snd y)" using assms(2) by (simp add: x uncommitted_def)
  show "uncommitted c y"
  proof (cases ev)
    case SysElection
    with step assms(2) pos show ?thesis
      by (auto simp: x sys_step_def uncommitted_def bind_eq_Some_conv ai_election_def int64_inc_def
          send_request_async_def split: if_splits)
  next
    case (SysAnswer r failed e n)
    with step assms(2) pos show ?thesis
      by (auto simp: x sys_step_def uncommitted_def rpc_call_back_def ai_election_callback_def ai_adopt_term_def
          ai_reset_election_def)
  next
    case (SysThread k rpc)
    with step consider "y = x" | pc s' where "k < length pcs" "y = (pcs[k := pc], s')"
        "rt_step rpc parse bs g (of_nat k) (pcs ! k) s = Some (pc, s')"
      by (auto simp: x sys_step_def bind_eq_Some_conv split: if_splits)
    then show ?thesis
    proof cases
      case 2
      have "\<forall>req mi mt. pcs ! k = RtCalling req mi mt \<longrightarrow> mt \<le> 0" "0 < ai_current_term s"
        using assms(2) nth_mem [OF 2(1)] by (auto simp: uncommitted_def x)
      then have "ai_commit_index s' = ai_commit_index s \<and> ai_last_applied s' = ai_last_applied s \<and> ai_called s' = ai_called s"
        using rt_step_cases [OF 2(3)] ai_append_answer_old_term by blast
      moreover have "list_all (\<lambda>pc. \<forall>req mi mt. pc = RtCalling req mi mt \<longrightarrow> mt \<le> 0) (pcs[k := pc])"
        using assms(2) rt_step_term [of parse, OF assms(1) 2(3)]
        by (intro list_all_update) (simp_all add: uncommitted_def x list_all_iff)
      ultimately show ?thesis
        using assms(2) pos by (simp add: uncommitted_def x 2(2) list_all_iff)
    qed (use assms(2) in simp)
  qed
qed

lemma uncommitted_machine:
  "parse [] = Some new_log_entry
    \<Longrightarrow> invariant_machine (sys_step parse byte_size) (\<lambda>_. True) (uncommitted c)"
  by unfold_locales (rule sys_step_uncommitted)

text \<open>C19: No interleaving of the threads, elections and answers commits, applies or calls back
  anything on a node with a positive term, if the parser turns an empty string into the default
  entry, as protobuf does: the last term of every request that is ever under way is 0 or -1,
  because \<open>ReadEntry\<close> has an empty body, and terms only grow.\<close>

theorem threads_never_commit:
  assumes "parse [] = Some new_log_entry" and "0 < ai_current_term s" and "list_all (\<lambda>pc. pc = RtTop) pcs"
    and "for_each (sys_step parse byte_size) g evs (pcs, s) = Some (pcs', s')"
  shows "ai_commit_index s' = ai_commit_index s \<and> ai_last_applied s' = ai_last_applied s
    \<and> ai_called s' = ai_called s"
proof -
  have "uncommitted s (pcs, s)" using assms(2,3) by (auto simp: uncommitted_def list_all_iff)
  then have "uncommitted s (pcs', s')"
    using postD [OF invariant_machine.run_keeps [OF uncommitted_machine [of parse, OF assms(1)]] assms(4)]
    by (simp add: list.pred_True)
  then show ?thesis by (simp add: uncommitted_def)
qed

theorem threads_never_commit_witness:
  "\<exists>pcs' s'. for_each (sys_step (\<lambda>b. Some new_log_entry) (\<lambda>q. 0)) (env_const 1)
      [SysThread 2 refuse, SysThread 1 refuse, SysThread 2 refuse] sample_threads = Some (pcs', s')
    \<and> ai_commit_index s' = 2"
proof -
  let ?run = "for_each (sys_step (\<lambda>b. Some new_log_entry) (\<lambda>q. 0)) (env_const 1)
      [SysThread 2 refuse, SysThread 1 refuse, SysThread 2 refuse]"
  obtain pcs s where x: "sample_threads = (pcs, s)" "pcs = [RtTop, RtTop, RtTop]" "s = sample_impl\<lparr>ai_role := KLeader\<rparr>"
    by (simp add: sample_threads_def)
  have start: "0 < ai_current_term s" "list_all (\<lambda>pc. pc = RtTop) pcs" "ai_commit_index s = 2"
    by (simp_all add: x(2,3) sample_impl_def)
  have "?run (pcs, s) \<noteq> None"
    by (rule threads_run_defined) (use sample_threads_ok in \<open>simp_all add: x(1)\<close>)
  then obtain pcs' s' where run: "?run (pcs, s) = Some (pcs', s')" by fast
  from threads_never_commit [of "\<lambda>b. Some new_log_entry", OF refl start(1,2) run] run start(3) show ?thesis
    by (simp add: x(1))
qed

end
