(* ===== verification/Anraft_Roles.thy ===== *)
theory Anraft_Roles
  imports Anraft_Threads
begin

text \<open>
  The role and the term of an \<open>AnraftImpl\<close> as an abstract machine, which every operation of
  \<open>Anraft_Impl\<close> refines.
\<close>

section \<open>The abstract machine\<close>

inductive impl_move :: "role \<times> int \<Rightarrow> role \<times> int \<Rightarrow> bool" where
  campaign: "r \<noteq> KLeader \<Longrightarrow> impl_move (r, t) (KCandidate, t + 1)"
| adopt: "t < t' \<Longrightarrow> impl_move (r, t) (KFollower, t')"
| win: "r \<noteq> KLeader \<Longrightarrow> impl_move (r, t) (KLeader, t)"

inductive_cases impl_move_from_leader: "impl_move (KLeader, t) x"
inductive_simps impl_move_simps: "impl_move (r, t) (r', t')"

lemma impl_move_term: "impl_move x y \<Longrightarrow> snd x \<le> snd y"
  by (cases rule: impl_move.cases) auto

lemma impl_moves_term: "impl_move\<^sup>*\<^sup>* x y \<Longrightarrow> snd x \<le> snd y"
  by (induction rule: rtranclp_induct) (auto dest: impl_move_term)

text \<open>A leader leaves its role only by adopting a higher term.\<close>

lemma impl_moves_leader:
  "impl_move\<^sup>*\<^sup>* x y \<Longrightarrow> fst x = KLeader \<Longrightarrow> fst y = KLeader \<or> snd x < snd y"
proof (induction rule: rtranclp_induct)
  case base
  then show ?case by simp
next
  case (step y z)
  show ?case
  proof (cases "snd x < snd y")
    case True
    with impl_move_term [OF step.hyps(2)] show ?thesis by simp
  next
    case False
    with step have "fst y = KLeader" "snd x \<le> snd y" using impl_moves_term by blast+
    with step.hyps(2) show ?thesis by (cases y) (auto elim: impl_move_from_leader)
  qed
qed

definition ai_abs :: "('c, 'd) anraft_impl \<Rightarrow> role \<times> int" where
  "ai_abs s = (ai_role s, ai_current_term s)"

section \<open>The operations refine it\<close>

lemma ai_adopt_term_moves: "ai_current_term s < t \<Longrightarrow> impl_move (ai_abs s) (ai_abs (ai_adopt_term t s))"
  by (simp add: ai_abs_def ai_adopt_term_def ai_reset_election_def adopt)

lemma ai_check_term_moves: "impl_move\<^sup>*\<^sup>* (ai_abs s) (ai_abs (snd (ai_check_term t s)))"
  by (auto simp: ai_check_term_def intro: ai_adopt_term_moves)

lemma ai_election_moves: "post (ai_election s) (\<lambda>x. impl_move\<^sup>*\<^sup>* (ai_abs s) (ai_abs (snd x)))"
  by (auto simp: ai_election_def ai_abs_def int64_inc_def send_request_async_def campaign)

lemma ai_votes_abs [simp]: "ai_abs (s\<lparr>ai_votes := v\<rparr>) = ai_abs s"
  by (simp add: ai_abs_def)

lemma ai_win_moves: "ai_role s \<noteq> KLeader \<Longrightarrow> impl_move (ai_abs s) (ai_abs (s\<lparr>ai_role := KLeader, ai_leader := n\<rparr>))"
  by (simp add: ai_abs_def win)

lemma ai_election_callback_moves:
  "impl_move\<^sup>*\<^sup>* (ai_abs s) (ai_abs (ai_election_callback r failed e n s))"
proof -
  let ?t = "if ai_current_term s < vr_term r then ai_adopt_term (vr_term r) s else s"
  have first: "impl_move\<^sup>*\<^sup>* (ai_abs s) (ai_abs ?t)" by (auto intro: ai_adopt_term_moves)
  have "impl_move\<^sup>*\<^sup>* (ai_abs ?t) (ai_abs (ai_election_callback r failed e n s))
    \<or> ai_election_callback r failed e n s = s"
    by (auto simp: ai_election_callback_def intro: ai_win_moves [of "_\<lparr>ai_votes := _\<rparr>", simplified])
  with first show ?thesis by auto
qed

lemma ai_advance_commit_abs: "post (ai_advance_commit s) (\<lambda>t. ai_abs t = ai_abs s)"
  by (rule postI) (auto simp: ai_advance_commit_def ai_apply_loop_rounds ai_abs_def bind_eq_Some_conv split: if_splits)

lemma ai_append_answer_moves: "post (ai_append_answer k f resp mi mt s) (\<lambda>t. impl_move\<^sup>*\<^sup>* (ai_abs s) (ai_abs t))"
proof -
  let ?t = "snd (ai_check_term (ar_term resp) s)"
  have t: "impl_move\<^sup>*\<^sup>* (ai_abs s) (ai_abs ?t)" by (rule ai_check_term_moves)
  moreover have "ai_abs (?t\<lparr>ai_followers := fs\<rparr>) = ai_abs ?t" for fs by (simp add: ai_abs_def)
  moreover have "post (ai_advance_commit ?t) (\<lambda>u. impl_move\<^sup>*\<^sup>* (ai_abs s) (ai_abs u))"
    using ai_advance_commit_abs [of ?t] by (rule post_mono) (simp add: t)
  ultimately show ?thesis by (simp add: ai_append_answer_def prod.case_eq_if)
qed

lemma ai_replicate_moves:
  "post (ai_replicate_log_to_follower rpc parse bs g k s) (\<lambda>t. impl_move\<^sup>*\<^sup>* (ai_abs s) (ai_abs t))"
  by (auto simp: ai_replicate_log_to_follower_def prod.case_eq_if ai_append_answer_moves
      split: option.split intro!: postI [of "ai_build_request _ _ _ _ _"] postI [of "vec_at _ _"])

lemma ai_step_moves: "post (ai_step rpc parse bs g ev s) (\<lambda>t. impl_move\<^sup>*\<^sup>* (ai_abs s) (ai_abs t))"
  by (auto simp: ai_step_def ai_election_moves rpc_call_back_def ai_election_callback_moves ai_replicate_log_round_def
      ai_replicate_moves prod.case_eq_if split: ai_event.split intro!: postI [of "vec_at _ _"])

interpretation impl_moves: ordered_machine "ai_step rpc parse byte_size" "\<lambda>s t. impl_move\<^sup>*\<^sup>* (ai_abs s) (ai_abs t)"
  for rpc parse byte_size
  by unfold_locales (auto intro: ai_step_moves)

section \<open>Properties\<close>

text \<open>Every run of elections, answers and replication rounds refines the machine of role and term:
  a node campaigns with the next term, adopts a higher term as follower, or wins within its term,
  and does nothing else; in particular a leader is still leader after the run unless its term
  has gone up.\<close>

theorem impl_refines_role_machine:
  assumes "for_each (ai_step rpc parse byte_size) g evs s = Some s'"
  shows "impl_move\<^sup>*\<^sup>* (ai_role s, ai_current_term s) (ai_role s', ai_current_term s')
    \<and> (ai_role s = KLeader \<longrightarrow> ai_role s' = KLeader \<or> ai_current_term s < ai_current_term s')"
proof -
  have "impl_move\<^sup>*\<^sup>* (ai_abs s) (ai_abs s')"
    by (rule postD [OF impl_moves.run_le assms])
  then show ?thesis
    using impl_moves_leader [of "ai_abs s" "ai_abs s'"] by (simp add: ai_abs_def)
qed

lemma sample_leader_run:
  "for_each (ai_step (\<lambda>n q p. p) (\<lambda>b. None) (\<lambda>q. 0)) (env_const 0)
     [AiElection, AiAnswer \<lparr>vr_term = 9, vr_vote_granted = False\<rparr> True 0 ''b''] (sample_impl\<lparr>ai_role := KLeader\<rparr>)
   = Some (sample_impl\<lparr>ai_role := KFollower, ai_current_term := 9, ai_voted_for := []\<rparr>)"
  by (simp add: ai_step_def ai_election_def rpc_call_back_def ai_election_callback_def ai_adopt_term_def
      ai_reset_election_def sample_impl_def)

theorem impl_refines_role_machine_witness:
  "impl_move\<^sup>*\<^sup>* (KLeader, 3) (KFollower, 9)"
proof -
  have "ai_current_term sample_impl = 3" by (simp add: sample_impl_def)
  with impl_refines_role_machine [OF sample_leader_run] show ?thesis by simp
qed

lemma sys_step_moves: "post (sys_step parse bs g ev x) (\<lambda>y. impl_move\<^sup>*\<^sup>* (ai_abs (snd x)) (ai_abs (snd y)))"
  by (rule sys_step_lift) (simp_all add: ai_election_moves ai_election_callback_moves ai_append_answer_moves)

interpretation sys_moves: ordered_machine "sys_step parse byte_size"
  "\<lambda>x y. impl_move\<^sup>*\<^sup>* (ai_abs (snd x)) (ai_abs (snd y))" for parse byte_size
  by unfold_locales (auto intro: sys_step_moves)

text \<open>C21: Every interleaving of the replication threads, elections and answers refines the machine of
  role and term: a node campaigns with the next term, adopts a higher term as follower, or wins
  within its term, and does nothing else; in particular a leader is still leader after the run
  unless its term has gone up.\<close>

theorem threads_refine_role_machine:
  assumes "for_each (sys_step parse byte_size) g evs (pcs, s) = Some (pcs', s')"
  shows "impl_move\<^sup>*\<^sup>* (ai_role s, ai_current_term s) (ai_role s', ai_current_term s')
    \<and> (ai_role s = KLeader \<longrightarrow> ai_role s' = KLeader \<or> ai_current_term s < ai_current_term s')"
proof -
  have "impl_move\<^sup>*\<^sup>* (ai_abs s) (ai_abs s')"
    using postD [OF sys_moves.run_le assms] by simp
  then show ?thesis
    using impl_moves_leader [of "ai_abs s" "ai_abs s'"] by (simp add: ai_abs_def)
qed

lemma sample_stepdown_run:
  "for_each (sys_step (\<lambda>b. None) (\<lambda>q. 0)) (env_const 0)
     [SysThread 1 refuse, SysAnswer \<lparr>vr_term = 9, vr_vote_granted = False\<rparr> True 0 ''b'']
     ([RtTop, RtReturned], sample_impl\<lparr>ai_role := KLeader\<rparr>)
   = Some ([RtTop, RtReturned], sample_impl\<lparr>ai_role := KFollower, ai_current_term := 9, ai_voted_for := []\<rparr>)"
  by (simp add: sys_step_def rt_step_def rpc_call_back_def ai_election_callback_def ai_adopt_term_def
      ai_reset_election_def sample_impl_def)

theorem threads_refine_role_machine_witness:
  "impl_move\<^sup>*\<^sup>* (KLeader, 3) (KFollower, 9)"
proof -
  have "ai_current_term sample_impl = 3" by (simp add: sample_impl_def)
  with threads_refine_role_machine [OF sample_stepdown_run] show ?thesis by simp
qed

text \<open>An answer that passes the guard, carries a higher term and grants a vote makes a node a follower
  of that term and at once, if its vote set is large enough, the leader of it, although the node
  never campaigned in that term.\<close>

theorem impl_follower_wins:
  assumes "ai_current_term s < t" and "failed" and "e = 0"
    and "length (ao_nodes (ai_options s)) div 2 + 1 \<le> fcard (finsert n (ai_votes s))"
  shows "ai_role (ai_election_callback \<lparr>vr_term = t, vr_vote_granted = True\<rparr> failed e n s) = KLeader
    \<and> ai_current_term (ai_election_callback \<lparr>vr_term = t, vr_vote_granted = True\<rparr> failed e n s) = t"
  using assms by (simp add: ai_election_callback_def ai_adopt_term_def ai_reset_election_def)

theorem impl_follower_wins_witness:
  "ai_role (ai_election_callback \<lparr>vr_term = 9, vr_vote_granted = True\<rparr> True 0 ''c'' sample_impl) = KLeader"
  by (rule conjunct1 [OF impl_follower_wins]) (simp_all add: sample_impl_def fcard_finsert_if)

end
