(* ===== verification/Anraft_Cluster.thy ===== *)
theory Anraft_Cluster
  imports Anraft_Threads
begin

text \<open>
  Several \<open>AnraftImpl\<close> objects that call each other: the vote requests of an election travel to
  the nodes whose stubs the client holds, are handled by \<open>Vote\<close> there, and come back through
  \<open>RpcCallBack\<close>; or the call fails, with an error code, as the RPC layer documents it. Calls
  may be slow, may come back in any order, and may be lost.
\<close>

section \<open>The cluster\<close>

text \<open>A request under way: the node that sent it, the address it goes to, and the request.\<close>

type_synonym vote_call = "nat \<times> string \<times> vote_request"

text \<open>
  The response object as the RPC layer makes it: the message \<open>VoteResponse\<close> with its default values.
\<close>

definition new_vote_response :: vote_response where
  "new_vote_response = \<lparr>vr_term = 0, vr_vote_granted = False\<rparr>"

definition node_addr :: "('c, 'd) impl_system \<Rightarrow> string" where
  "node_addr x = ao_local_addr (ai_options (snd x))"

definition node_answer :: "vote_response \<Rightarrow> bool \<Rightarrow> int \<Rightarrow> string \<Rightarrow> ('c, 'd) impl_system \<Rightarrow> ('c, 'd) impl_system" where
  "node_answer response failed error node x = (fst x, rpc_call_back response failed error node (snd x))"

inductive impl_cluster_step ::
    "('c, 'd) impl_system list \<times> vote_call list \<Rightarrow> ('c, 'd) impl_system list \<times> vote_call list \<Rightarrow> bool" where
  elects: "i < length c \<Longrightarrow> ai_election (snd (c ! i)) = Some (sent, s)
    \<Longrightarrow> impl_cluster_step (c, calls) (c[i := (fst (c ! i), s)], calls @ map (\<lambda>x. (i, fst x, snd x)) sent)"
| replicates: "i < length c \<Longrightarrow> sys_step parse byte_size g (SysThread k rpc) (c ! i) = Some x
    \<Longrightarrow> impl_cluster_step (c, calls) (c[i := x], calls)"
| answers: "(i, node, request) \<in> set calls \<Longrightarrow> i < length c \<Longrightarrow> j < length c \<Longrightarrow> node_addr (c ! j) = node
    \<Longrightarrow> ai_vote request new_vote_response (snd (c ! j)) = (response, s) \<Longrightarrow> d = c[j := (fst (c ! j), s)]
    \<Longrightarrow> impl_cluster_step (c, calls)
          (d[i := node_answer response False 0 node (d ! i)], remove1 (i, node, request) calls)"
| fails: "(i, node, request) \<in> set calls \<Longrightarrow> i < length c \<Longrightarrow> error \<noteq> 0
    \<Longrightarrow> impl_cluster_step (c, calls)
          (c[i := node_answer new_vote_response True error node (c ! i)], remove1 (i, node, request) calls)"

abbreviation impl_cluster_run ::
    "('c, 'd) impl_system list \<times> vote_call list \<Rightarrow> ('c, 'd) impl_system list \<times> vote_call list \<Rightarrow> bool" where
  "impl_cluster_run \<equiv> impl_cluster_step\<^sup>*\<^sup>*"

section \<open>Steps of an idle cluster\<close>

text \<open>Every step of the cluster is a documented event of one of its nodes.\<close>

lemma impl_cluster_step_event:
  assumes "impl_cluster_step (c, calls) (c', calls')"
  shows "\<exists>i x ev parse byte_size g. i < length c \<and> sys_documented ev
    \<and> sys_step parse byte_size g ev (c ! i) = Some x \<and> c' = c[i := x]"
  using assms
proof (cases rule: impl_cluster_step.cases)
  case (elects i sent s)
  then have "sys_step parse byte_size g SysElection (c ! i) = Some (fst (c ! i), s)" for parse byte_size g
    by (simp add: sys_step_def prod.case_eq_if)
  with elects show ?thesis
    by (intro exI [of _ i] exI [of _ "(fst (c ! i), s)"] exI [of _ SysElection]) (simp add: sys_documented_def)
next
  case (replicates i parse byte_size g k rpc x)
  then show ?thesis
    by (intro exI [of _ i] exI [of _ x] exI [of _ "SysThread k rpc"]) (auto simp: sys_documented_def)
next
  case (answers i node request j response s d)
  then have "c ! j = (fst (c ! j), s)" by (simp add: ai_vote_def prod_eq_iff)
  with answers have d: "d = c" by (simp add: list_update_same_conv)
  have "sys_step parse byte_size g (SysAnswer response False 0 node) (c ! i)
      = Some (node_answer response False 0 node (c ! i))" for parse byte_size g
    by (simp add: sys_step_def prod.case_eq_if node_answer_def)
  with answers d show ?thesis
    by (intro exI [of _ i] exI [of _ "node_answer response False 0 node (c ! i)"]
        exI [of _ "SysAnswer response False 0 node"]) (simp add: sys_documented_def)
next
  case (fails i node request error)
  have "sys_step parse byte_size g (SysAnswer new_vote_response True error node) (c ! i)
      = Some (node_answer new_vote_response True error node (c ! i))" for parse byte_size g
    by (simp add: sys_step_def prod.case_eq_if node_answer_def)
  with fails show ?thesis
    by (intro exI [of _ i] exI [of _ "node_answer new_vote_response True error node (c ! i)"]
        exI [of _ "SysAnswer new_vote_response True error node"]) (simp add: sys_documented_def)
qed

lemma list_all2_update: "list_all2 P xs ys \<Longrightarrow> i < length ys \<Longrightarrow> P (xs ! i) y \<Longrightarrow> list_all2 P xs (ys[i := y])"
  by (simp add: list_all2_conv_all_nth nth_list_update)

lemma impl_cluster_run_idle:
  assumes "impl_cluster_run (c, calls) (c', calls')" and "list_all sys_idle c"
  shows "list_all2 (\<lambda>x y. sys_idle y \<and> idle_le x y) c c'"
  using assms(1)
proof (induction rule: rtranclp_induct2)
  case refl
  show ?case using assms(2) by (simp add: list_all2_conv_all_nth list_all_length idle_refl)
next
  case (step d calls1 d' calls2)
  then obtain i x ev parse bs g where ev: "i < length d" "sys_documented ev" "sys_step parse bs g ev (d ! i) = Some x"
    "d' = d[i := x]" using impl_cluster_step_event by blast
  then have at: "sys_idle (d ! i)" "idle_le (c ! i) (d ! i)"
    using step.IH by (simp_all add: list_all2_conv_all_nth)
  from postD [OF sys_step_idle [OF ev(2) at(1)] ev(3)] at(2) have "sys_idle x \<and> idle_le (c ! i) x"
    by (blast intro: idle_trans)
  with step.IH ev(1) show ?case by (simp add: ev(4) list_all2_update)
qed

section \<open>Properties\<close>

text \<open>C20: A cluster of \<open>AnraftImpl\<close> nodes that starts without a leader never gets one, whatever is
  delivered, delayed or lost: \<open>Vote\<close> answers with an empty response, and the callback ignores
  every call that has not failed. Over every run each node only raises its term and changes its
  role and its vote; commit index, applied index, votes, log and followers stay.\<close>

theorem impl_cluster_never_elects:
  assumes "impl_cluster_run (c, []) (c', calls')"
    and "list_all (\<lambda>x. ai_role (snd x) \<noteq> KLeader \<and> list_all (\<lambda>pc. pc = RtTop) (fst x)) c"
  shows "length c' = length c \<and> (\<forall>i<length c. ai_role (snd (c' ! i)) \<noteq> KLeader
    \<and> ai_current_term (snd (c ! i)) \<le> ai_current_term (snd (c' ! i))
    \<and> (\<exists>t r v. snd (c' ! i) = (snd (c ! i))\<lparr>ai_current_term := t, ai_role := r, ai_voted_for := v\<rparr>))"
proof -
  have "list_all sys_idle c"
    using assms(2) by (auto simp: list_all_iff sys_idle_def)
  from impl_cluster_run_idle [OF assms(1) this] show ?thesis
    by (fastforce simp: list_all2_conv_all_nth sys_idle_def idle_le_def)
qed

text \<open>The witness: one of two nodes starts an election, and its request is answered.\<close>

lemma sample_cluster_run:
  "impl_cluster_run ([([RtTop], sample_impl), ([RtTop], sample_impl\<lparr>ai_options := ao\<lparr>ao_local_addr := ''b''\<rparr>\<rparr>)], [])
    ([([RtTop], sample_impl\<lparr>ai_current_term := 4, ai_role := KCandidate\<rparr>),
      ([RtTop], sample_impl\<lparr>ai_options := ao\<lparr>ao_local_addr := ''b''\<rparr>\<rparr>)],
     map (\<lambda>n. (0, n, \<lparr>vq_term = 4, vq_candidate_id = ''a'', vq_last_log_index = 5, vq_last_log_term = 3\<rparr>)) [''a'', ''c''])"
proof -
  let ?b = "([RtTop], sample_impl\<lparr>ai_options := ao\<lparr>ao_local_addr := ''b''\<rparr>\<rparr>)"
  let ?a = "([RtTop], sample_impl\<lparr>ai_current_term := 4, ai_role := KCandidate\<rparr>)"
  let ?q = "\<lparr>vq_term = 4, vq_candidate_id = ''a'', vq_last_log_index = 5, vq_last_log_term = 3\<rparr>"
  let ?calls = "map (\<lambda>n. (0, n, ?q)) [''a'', ''b'', ''c'']"
  have vote: "ai_election sample_impl = Some ([(''a'', ?q), (''b'', ?q), (''c'', ?q)], snd ?a)"
    by (simp add: ai_election_def int64_inc_def int64_max_def send_request_async_def sample_impl_def)
  have first: "impl_cluster_step ([([RtTop], sample_impl), ?b], []) ([?a, ?b], ?calls)"
    using impl_cluster_step.elects [of 0 "[([RtTop], sample_impl), ?b]" _ _ "[]", simplified, OF vote]
    by simp
  have "impl_cluster_step ([?a, ?b], ?calls) (([?a, ?b])[1 := (fst ?b, snd ?b), 0 := node_answer new_vote_response False 0 ''b'' ?a],
      remove1 (0, ''b'', ?q) ?calls)"
    using impl_cluster_step.answers [of 0 "''b''" ?q ?calls "[?a, ?b]" 1 new_vote_response "snd ?b"]
    by (simp add: node_addr_def ai_vote_def)
  then have second: "impl_cluster_step ([?a, ?b], ?calls) ([?a, ?b], map (\<lambda>n. (0, n, ?q)) [''a'', ''c''])"
    by (simp add: node_answer_def rpc_call_back_def ai_election_callback_documented)
  from first second show ?thesis by (rule converse_rtranclp_into_rtranclp [OF _ r_into_rtranclp])
qed

theorem impl_cluster_never_elects_witness:
  "ai_role (sample_impl\<lparr>ai_current_term := 4, ai_role := KCandidate\<rparr>) \<noteq> KLeader \<and> ai_current_term sample_impl \<le> 4"
proof -
  have "list_all (\<lambda>x. ai_role (snd x) \<noteq> KLeader \<and> list_all (\<lambda>pc. pc = RtTop) (fst x))
      [([RtTop], sample_impl), ([RtTop], sample_impl\<lparr>ai_options := ao\<lparr>ao_local_addr := ''b''\<rparr>\<rparr>)]" for ao
    by (simp add: sample_impl_def)
  from impl_cluster_never_elects [OF sample_cluster_run this] show ?thesis by force
qed

end
