(* ===== verification/Anraft_Status.thy ===== *)
theory Anraft_Status
  imports Prelude
begin

text \<open>
  \<^verbatim>\<open>src/src/anraft/status.h\<close>: the value class that the public interface promises as a result.
  No code of the repository sets another code than the default. Assignment works on objects,
  so it is modelled on a store that maps the two names to their values.
\<close>

datatype status_code = StatusOk | StatusInvalidArgument | StatusNotSupported | StatusMaxCode

datatype status_sub_code = StatusNone | StatusMaxSubCode

record status =
  st_code :: status_code
  st_subcode :: status_sub_code

definition new_status :: status where
  "new_status = \<lparr>st_code = StatusOk, st_subcode = StatusNone\<rparr>"

definition copy_status :: "status \<Rightarrow> status" where
  "copy_status s = \<lparr>st_code = st_code s, st_subcode = st_subcode s\<rparr>"

text \<open>\<open>store target = store source\<close>, with the test for self-assignment by address.\<close>

definition assign_status :: "'a \<Rightarrow> 'a \<Rightarrow> ('a \<Rightarrow> status) \<Rightarrow> 'a \<Rightarrow> status" where
  "assign_status target source store =
     (if target \<noteq> source
      then store(target := (store target)\<lparr>st_code := st_code (store source), st_subcode := st_subcode (store source)\<rparr>)
      else store)"

lemma copy_status_id: "copy_status s = s"
  by (simp add: copy_status_def)

text \<open>The test is an optimisation: with or without it the target becomes a copy and nothing else changes.\<close>

lemma assign_status_copies: "assign_status target source store = store(target := copy_status (store source))"
  by (auto simp: assign_status_def copy_status_def fun_eq_iff)

end
