(* ===== verification/Spec2Isabelle.thy ===== *)
theory Spec2Isabelle
  imports Raft_Handlers Node_Queue Raft_Leaders Kv_Store Log_Reads Anraft_Startup Anraft_Roles Anraft_Cluster Anraft_Status
begin

  text \<open> A verification library for \<^bold>\<open>anraft\<close>, a C++ port of etcd's raft
  (sources under \<^verbatim>\<open>src/src/anraft\<close>, messages in
  \<^verbatim>\<open>src/src/proto/raft.proto\<close>, transport in
  \<^verbatim>\<open>src/src/rafthttp\<close>, an example program in
  \<^verbatim>\<open>src/examples/raftexample\<close>).

  \<^bold>\<open>The program.\<close> The repository holds two consensus objects.
  \<open>Raft\<close> (\<^verbatim>\<open>raft.cpp\<close>) is the etcd state machine: a timer calls
  \<open>Tick\<close>, messages go to \<open>Step\<close>, and answers are queued in
  \<open>msgs_\<close>. It reads and commits a \<open>RaftLog\<close>
  (\<^verbatim>\<open>raft_log.cpp\<close>), which is an \<open>Unstable\<close> tail
  (\<^verbatim>\<open>log_unstable.cpp\<close>) behind a \<open>Storage\<close>
  (\<^verbatim>\<open>storage.cpp\<close>), and keeps one \<open>Progress\<close>
  (\<^verbatim>\<open>progress.cpp\<close>) per peer. \<open>Node\<close>
  (\<^verbatim>\<open>node.cpp\<close>) puts an execution queue in front of it;
  \<open>RaftNode\<close> of the example (\<^verbatim>\<open>raft_node.cpp\<close>) owns a
  \<open>Node\<close>, feeds its queue from a timer and from the proposals of a key-value store with
  HTTP handlers, and starts the \<open>Transport\<close>. \<open>AnraftImpl\<close>
  (\<^verbatim>\<open>anraft_impl.cpp\<close>) is a second implementation over RPCs, with the
  current term in RocksDB. Much of the port is unfinished: bodies are empty, returns are missing,
  comparisons are assignments. The development models the code as it stands, and its theorems say
  both what is right about it and what follows from the gaps.

  \<^bold>\<open>Conventions.\<close> A run is an \<^typ>\<open>'a option\<close>:
  \<^term>\<open>None\<close> is a \<^emph>\<open>fault\<close> that the model checks: an access or an iterator range outside
  a container, a null pointer or a pointer to an object of another type that is followed, an empty
  function called, a signed overflow, a failed assertion. Three other things are undefined behaviour
  in C++ by themselves and are no faults of the model: a function that runs
  off its end (\<open>NoReturn\<close>, or any value where a caller reads the result), a variable that is
  read without having been set (any value), after both of which the model goes on, and a data race,
  which it does not have. Any value means a value from the
  supply \<open>env\<close>, over which every theorem is universally quantified, so that no theorem depends on
  what it is. The theorems about faults say which of the checked faults can happen for every such
  value; they do not say that the code is free of the other three. Of an iterator expression the
  range that is used in the end is checked, not the sums on the way (\<open>un_slice\<close>, \<open>ms_entries\<close>).
  \<open>uint64_t\<close> is a 64-bit word; \<open>int\<close> and \<open>int64_t\<close> counters
  are integers with a checked upper bound. Recursion is structural over lists wherever the code runs
  over a container, and no fuel is used. Three loops are not bounded by a container that stays
  fixed: the endless loop of a replication thread is a step function over the points where the
  thread waits, and that it never ends is \<open>replicate_log_never_ends\<close>; the apply loop of
  \<open>AnraftImpl\<close> is a partial function, which the lemma \<open>ai_apply_loop_rounds\<close> gives as a number of
  rounds (a callback is recorded when it is called, so that it takes no time), and the bootstrap loop of the example, which extends the
  vector that bounds it, is a function with a termination measure (the distance of its index to the
  largest \<open>int\<close>), whose number of rounds is in
  \<open>example_bootstrap_loop_returns\<close>.

  \<^bold>\<open>Theories\<close>, in the order of their imports:
  \<^item> \<open>Prelude\<close>: integers, the supply, \<open>post\<close> (partial correctness of a run) and \<open>defined\<close> (no
    fault), loops (\<open>for_each\<close>), vectors, the machine contracts
    \<open>supplied_machine\<close>, \<open>invariant_machine\<close> and \<open>ordered_machine\<close> that carry facts about one step
    over to runs and find the step at which a run meets a fault, and the contract
    \<open>fifo_channel\<close> of a queue. \<open>Anraft_Status\<close>: the status class.
  \<^item> \<open>Raft_Proto\<close>: the messages and enumerations, and runs of entries with consecutive
    indices. \<open>Ord_Map\<close>: \<^verbatim>\<open>std::map\<close> and its contract. \<open>Quorum\<close>: order statistics and the
    contract of majority rules, interpreted for \<open>n / 2 + 1\<close> and for the position that
    \<open>AnraftImpl\<close> reads.
  \<^item> \<open>Memory_Storage\<close>: the \<open>Storage\<close> interface as a record of functions, \<open>MemoryStorage\<close>
    (\<open>ms_*\<close>), its abstract log \<open>log_view\<close>, the refinement of every operation, and the
    contract \<open>storage_contract\<close> that the log relies on.
  \<^item> \<open>Raft_Config\<close>: \<^verbatim>\<open>config.h\<close> and the read-only context.
  \<^item> \<open>Log_Unstable\<close> (\<open>un_*\<close>) and \<open>Raft_Log\<close> (\<open>rl_*\<close>): the tail and the log, with the lemmas
    of the log proved once over any storage that keeps the contract. \<open>Log_Reads\<close>: what is read
    back from the log after an append, and every branch of a slice. \<open>Progress\<close> (\<open>pr_*\<close>).
  \<^item> \<open>Raft_Core\<close> (\<open>r_*\<close>): every operation of the \<open>Raft\<close> class. \<open>Raft_Invariants\<close>: the order
    \<open>raft_le\<close>, the role invariant and the abstract role machine \<open>role_move\<close>, for each operation
    and for runs, and the contracts \<open>raft_frame\<close> and \<open>raft_frame_send\<close> of a part of the state that
    most operations leave alone (the roles, the outbox, the clock). \<open>Raft_Properties\<close>: commit,
    elections, votes, replication messages, timers.
    \<open>Raft_Types\<close>: the data type invariant of the containers. \<open>Raft_Timers\<close>: the range of the
    election timer over runs, and the timers that overflow. \<open>Raft_Definedness\<close>: no operation
    over a readable log meets a fault, but for two counters. \<open>Raft_Handlers\<close>: the whole outcome of a
    vote request, an append request, a campaign and the ticks that lead to it, as equations.
    \<open>Raft_Cluster\<close>: several nodes
    that exchange their messages, as a step relation over the supplies a theorem admits. \<open>Raft_Leaders\<close>: the
    same clusters when nodes lead at the start: what they can still commit, and which faults they meet.
  \<^item> \<open>Raft_Node\<close> (\<open>n_*\<close>): the queue loop and the start of a node. \<open>Node_Definedness\<close>: which faults a
    batch of the queue can meet. \<open>Node_Queue\<close>: the batches for which the queue is transparent.
  \<^item> \<open>Raft_Transport\<close> (\<open>tp_*\<close>, \<open>sw_*\<close>, \<open>sr_*\<close>): the transport and its streams, and the record
    \<open>library\<close> of what brpc, bthread, butil and protobuf answer. \<open>Raft_Example\<close> (\<open>rn_*\<close>): the
    \<open>RaftNode\<close> of the example, its start, its queues and its timer. \<open>Kv_Store\<close> (\<open>kv_*\<close>,
    \<open>http_*\<close>): the key-value store, the HTTP handlers, \<open>main\<close>, and runs of the whole program, the start of the
    node and the consumer of its queue included.
  \<^item> \<open>Meta_Store\<close>: the term in the database. \<open>Anraft_Impl\<close> (\<open>ai_*\<close>),
    \<open>Anraft_Properties\<close> and \<open>Anraft_Startup\<close>: the RPC-based object, and what follows from how it
    and its client are constructed. \<open>Anraft_Threads\<close> (\<open>rt_*\<close>, \<open>sys_*\<close>): the replication threads,
    interleaved with elections and vote answers at every point where they wait.
    \<open>Anraft_Roles\<close>: the abstract machine of role and term. \<open>Anraft_Cluster\<close>: several objects that
    answer each other's vote requests.

  \<^bold>\<open>What the lemmas show.\<close> Safety: both commit rules pick an index that more
  than half of the members hold, commit indices and progress never go back, leadership is only
  reached through the vote count. Equivalence: each commit rule against the reference
  \<open>majority_index\<close>, the largest index that a majority holds. Types: the maps of the
  raft object stay maps, members and learners stay apart. Termination, or not, of the loops named
  above. Faults, in the sense above: a well-formed raft node meets one only by two counters, its queue loop
  by these and a first item that holds no message, a closed cluster only by
  the heartbeat timer of a node that leads from the start, a well-formed RPC-based object with its
  threads, as interleaved here, only by an election in the largest term. Refinement: the storage against an abstract log, the role fields against a role
  machine, and the queue of a node
  against the raft object behind it. Liveness: a node
  that hears nothing campaigns after exactly its randomized timeout, unless \<open>pre_vote_\<close> is set. Functional behaviour on every
  branch of vote requests, append requests, campaigns, proposals, slices and bounds checks. And the consequences of the
  gaps: a node with an id never replicates an entry, a closed cluster never elects a leader and
  commits only what the peers of a leader had acknowledged when it started, terms never change, a node can vote twice in one term, a leader's heartbeat timer overflows, the
  RPC-based object never elects a leader, in a cluster either, never commits, and is cut off from
  every other node by its constructor, a queue batch loses every message but its first, and in the
  example no item reaches the queue of the node that was started, if the start comes back at all.

  \<^bold>\<open>Arguments of the model.\<close> RocksDB, brpc, protobuf parsing and sizes, the
  bthread queue and the random number generator are not in the repository. They are arguments; the
  hypotheses about them are \<open>rand_ok\<close> (a random number below \<open>n\<close> is below
  \<open>n\<close>), \<open>db_reads_back\<close> (an accepted write is read back),
  \<open>sys_documented\<close> (a call has failed exactly when its error code is not 0), and that
  an empty string parses to the default entry. The example program takes the answers of its
  libraries from the record \<open>library\<close>; its theorems hold for every such record, or for
  those in which a queue accepts an item, a directory exists, or a new queue id differs from that of
  another queue, as they say.

  \<^bold>\<open>Not modelled.\<close> The bodies of \<open>Raft::NewRaft\<close> and
  \<open>Raft::GetRaft\<close> are empty; the object that they should return is the state of the
  model. The promises that \<open>RaftNode::NewRaftNode\<close> moves to its caller are left out.
  Snapshots and the write-ahead log are empty classes, and the public headers declare functions that
  have no body. Logging is left out, and so is what brpc does between a call and its answer.
  Nothing in the repository registers an apply callback of \<open>AnraftImpl\<close>; the model records that one
  is called, and what it would do is outside the model. The
  threads of \<open>AnraftImpl\<close> hold no lock; the model interleaves them at the points where
  they wait, and takes what lies between two such points as one step, so that their data races are
  not modelled. \
\<close>

end
